theory Spec2Isabelle
  imports Complex_Main "HOL-Library.Word" "HOL-Library.Sublist"
begin

unbundle bit_operations_syntax

chapter \<open>The model\<close>

section \<open>Integer conventions\<close>

text \<open>
  C integer division truncates towards zero; Isabelle's \<open>div\<close> on \<open>int\<close>
  rounds towards minus infinity. Every \<open>/\<close> of the source on a signed integer is
  written with \<open>c_div\<close>. Sizes, counts of elements and loop bounds that the source
  only ever uses as non-negative numbers are \<open>nat\<close>.
\<close>

definition c_div :: "int \<Rightarrow> int \<Rightarrow> int" where
  "c_div a b = sgn a * sgn b * (\<bar>a\<bar> div \<bar>b\<bar>)"

type_synonym u8 = "8 word"
type_synonym i8 = "8 word"
type_synonym i32 = "32 word"
type_synonym u32 = "32 word"

section \<open>HAL scalar backend (\<open>hal_scalar.c\<close>)\<close>

subsection \<open>Unpacking one 2-bit code\<close>

text \<open>
  The expression every kernel uses inline,
  \<^verbatim>\<open>raw = (byte >> (6 - 2 * group_idx)) & 0x03\<close>,
  on a \<open>uint8_t\<close>. \<open>group_idx\<close> is \<open>j / 32\<close> for \<open>j < 128\<close>, so it is at most 3
  and the shift amount never goes below 0.
\<close>

definition raw_i2 :: "u8 \<Rightarrow> nat \<Rightarrow> u8" where
  "raw_i2 byte group_idx = drop_bit (6 - 2 * group_idx) byte AND 3"

subsection \<open>\<open>scalar_vec_dot_i2_i8\<close>\<close>

text \<open>
  The pointers \<open>vx\<close> and \<open>vy\<close> are read only; each is modelled by the memory it
  points to, a function from the offset (in elements) to the element stored there.
  An \<open>int8_t\<close> activation is an 8-bit word read with \<open>sint\<close>; the accumulator
  \<open>int32_t sum\<close> is a 32-bit word. \<open>(int32_t)raw\<close> zero-extends (\<open>ucast\<close>),
  \<open>(int32_t)yi[j]\<close> sign-extends (\<open>scast\<close>).

  \<open>dot_step\<close> is the body of the innermost loop (\<open>j\<close> from 0 to 127) for one block:
  \<open>packed\<close> is \<open>x_row + block * 32\<close> and \<open>yi\<close> is \<open>y + block * 128\<close>.
\<close>

definition dot_step :: "(nat \<Rightarrow> u8) \<Rightarrow> (nat \<Rightarrow> i8) \<Rightarrow> nat \<Rightarrow> i32 \<Rightarrow> i32" where
  "dot_step packed yi j sum32 =
     (let group_idx = j div 32;
          group_pos = j mod 32;
          byte = packed group_pos;
          raw = raw_i2 byte group_idx
      in sum32 + ucast raw * scast (yi j))"

text \<open>
  The two loops of one row: \<open>block\<close> from 0 to \<open>nb - 1\<close>, \<open>j\<close> from 0 to 127,
  starting from \<open>sum = 0\<close>.
\<close>

definition dot_row :: "nat \<Rightarrow> (nat \<Rightarrow> u8) \<Rightarrow> (nat \<Rightarrow> i8) \<Rightarrow> i32" where
  "dot_row nb x_row y =
     fold (\<lambda>block sum32.
        fold (dot_step (\<lambda>k. x_row (block * 32 + k)) (\<lambda>k. y (block * 128 + k))) [0..<128] sum32)
       [0..<nb] 0"

text \<open>
  The kernel. \<open>nb = n / 128\<close>; row \<open>row\<close> starts at \<open>x + row * (bx / 4)\<close>; the
  result list holds what the loop stores in \<open>s[0]\<close>, ..., \<open>s[nrc - 1]\<close>. The
  parameters \<open>bs\<close> and \<open>by\<close> are not used by the source. The conversion
  \<open>(float)sum\<close> of the language is the parameter \<open>float_of_i32\<close>.
\<close>

definition scalar_vec_dot_i2_i8 ::
  "(i32 \<Rightarrow> 'f) \<Rightarrow> nat \<Rightarrow> (nat \<Rightarrow> u8) \<Rightarrow> nat \<Rightarrow> (nat \<Rightarrow> i8) \<Rightarrow> nat \<Rightarrow> 'f list" where
  "scalar_vec_dot_i2_i8 float_of_i32 n x bx y nrc =
     map (\<lambda>row. float_of_i32 (dot_row (n div 128) (\<lambda>k. x (row * (bx div 4) + k)) y))
       [0..<nrc]"

text \<open>
  The layout in the words of the specification, to compare the kernel with: weight \<open>i\<close>
  of a row lies in block \<open>i div 128\<close> (32 bytes each); with \<open>j = i mod 128\<close> its code
  is in byte \<open>j mod 32\<close> of the block, in the two bits starting at bit
  \<open>6 - 2 * (j div 32)\<close>.
\<close>

definition weight_code :: "(nat \<Rightarrow> u8) \<Rightarrow> nat \<Rightarrow> u8" where
  "weight_code x_row i =
     (let blk = i div 128; j = i mod 128
      in drop_bit (6 - 2 * (j div 32)) (x_row (blk * 32 + j mod 32)) AND 3)"

subsection \<open>\<open>scalar_quantize_i2\<close>\<close>

text \<open>
  Step 3 of the function, the packing. \<open>pack_step\<close> is the body of the inner loop,
  \<^verbatim>\<open>out[blk * 32 + group_pos] |= (val << (6 - 2 * group_idx))\<close>;
  the shifted value is truncated to a byte by the assignment. \<open>pack_i2\<close> is
  \<open>memset(out, 0, n / 4)\<close> followed by the two loops (\<open>blk\<close> below \<open>n / 128\<close>,
  \<open>j\<close> below 128). Every index written is below \<open>n / 4\<close>.
\<close>

definition pack_step :: "u8 list \<Rightarrow> nat \<Rightarrow> nat \<Rightarrow> u8 list \<Rightarrow> u8 list" where
  "pack_step q8 blk j out =
     (let group_idx = j div 32;
          group_pos = j mod 32;
          val = q8 ! (blk * 128 + j)
      in out[blk * 32 + group_pos :=
               (out ! (blk * 32 + group_pos)) OR push_bit (6 - 2 * group_idx) val])"

definition pack_i2 :: "nat \<Rightarrow> u8 list \<Rightarrow> u8 list" where
  "pack_i2 n q8 =
     fold (\<lambda>blk out. fold (pack_step q8 blk) [0..<128] out) [0..<n div 128]
       (replicate (n div 4) 0)"

text \<open>
  Unpacking a whole block of 32 bytes into its 128 codes, with the kernels' expression.
\<close>

definition unpack_block :: "u8 list \<Rightarrow> u8 list" where
  "unpack_block packed = map (\<lambda>j. raw_i2 (packed ! (j mod 32)) (j div 32)) [0..<128]"

text \<open>A byte sequence represents valid 2-bit codes when each of its four fields is 0, 1 or 2.\<close>

definition valid_codes :: "u8 list \<Rightarrow> bool" where
  "valid_codes packed =
     list_all (\<lambda>b. list_all (\<lambda>g. raw_i2 b g = 0 \<or> raw_i2 b g = 1 \<or> raw_i2 b g = 2) [0..<4]) packed"







section \<open>Hardware probe (\<open>neuronos_detect_hardware\<close>)\<close>

text \<open>
  The probe reads the platform and fills \<open>neuronos_hw_info_t\<close>. What the platform
  reports is the input of the model: one constructor per \<open>#if\<close> branch of the RAM
  section, carrying the raw readings of that branch.
  \<^item> \<open>Linux\<close>: the values of \<open>read_meminfo_kb\<close> for MemTotal, MemAvailable,
    MemFree, Buffers, Cached (kB; 0 when the key is missing).
  \<^item> \<open>Apple\<close>: \<open>hw.memsize\<close> in bytes.
  \<^item> \<open>Win32\<close>: \<open>ullTotalPhys\<close> and \<open>ullAvailPhys\<close> in bytes (unsigned).
  \<^item> \<open>Posix\<close>: \<open>sysconf(_SC_PHYS_PAGES)\<close> and \<open>sysconf(_SC_PAGE_SIZE)\<close>.
  The fields are \<open>int64_t\<close>; the readings are far from the ends of that range
  (\<open>atoll\<close> of a kB count divided by 1024, a byte count divided by \<open>2^20\<close>), so the
  arithmetic is done on \<open>int\<close>. The record keeps the three RAM fields; the name,
  architecture, core counts, feature mask and GPU fields do not enter the budget.
\<close>

datatype platform_probe =
    Linux int int int int int
  | Apple int
  | Win32 nat nat
  | Posix int int

record neuronos_hw_info =
  ram_total_mb :: int
  ram_available_mb :: int
  model_budget_mb :: int

fun probe_ram_total_mb :: "platform_probe \<Rightarrow> int" where
  "probe_ram_total_mb (Linux mem_total mem_available mem_free buffers cached) =
     c_div mem_total 1024"
| "probe_ram_total_mb (Apple memsize) = c_div memsize (1024 * 1024)"
| "probe_ram_total_mb (Win32 total_phys avail_phys) = int (total_phys div (1024 * 1024))"
| "probe_ram_total_mb (Posix pages page_size) =
     (if pages > 0 \<and> page_size > 0 then c_div (pages * page_size) (1024 * 1024) else 2048)"

fun probe_ram_available_mb :: "platform_probe \<Rightarrow> int" where
  "probe_ram_available_mb (Linux mem_total mem_available mem_free buffers cached) =
     (let avail = c_div mem_available 1024
      in if avail \<le> 0 then c_div (mem_free + buffers + cached) 1024 else avail)"
| "probe_ram_available_mb (Apple memsize) =
     c_div (c_div memsize (1024 * 1024) * 60) 100"
| "probe_ram_available_mb (Win32 total_phys avail_phys) = int (avail_phys div (1024 * 1024))"
| "probe_ram_available_mb (Posix pages page_size) =
     c_div (probe_ram_total_mb (Posix pages page_size) * 50) 100"

definition neuronos_detect_hardware :: "platform_probe \<Rightarrow> neuronos_hw_info" where
  "neuronos_detect_hardware p =
     (let total = probe_ram_total_mb p;
          avail = probe_ram_available_mb p;
          budget = avail - 500;
          budget = (if budget < 256 then 256 else budget)
      in \<lparr> ram_total_mb = total, ram_available_mb = avail, model_budget_mb = budget \<rparr>)"

section \<open>Model scoring (\<open>score_model\<close>)\<close>

record neuronos_model_entry =
  path :: string
  entry_name :: string
  file_size_mb :: int
  est_ram_mb :: int
  n_params_est :: int
  fits_in_ram :: bool
  score :: real

text \<open>\<open>strstr(haystack, needle) != NULL\<close>: the needle occurs somewhere in the haystack.\<close>

fun strstr :: "string \<Rightarrow> string \<Rightarrow> bool" where
  "strstr [] needle = (needle = [])"
| "strstr (c # cs) needle = (prefix needle (c # cs) \<or> strstr cs needle)"

text \<open>
  The score is a \<open>float\<close>, and every operation on it rounds. The arithmetic of the
  platform is a parameter of the model, a record of the operations the function uses on a
  type \<open>'f\<close> of float values:
  \<^item> \<open>f_lit c\<close>, the value of a literal such as \<open>1000.0f\<close> (all literals of the function
    are integers);
  \<^item> \<open>f_of_i64 i\<close>, the conversion \<open>(float)i\<close> of an \<open>int64_t\<close>;
  \<^item> \<open>f_add\<close> and \<open>f_div\<close>, the sum and the quotient of two floats;
  \<^item> \<open>f_mul_add x y z\<close>, the value of \<open>z + x * y\<close> in the statement
    \<open>score += headroom * 50.0f\<close>, which a compiler evaluates as a rounded product
    followed by a rounded sum, or contracts into one fused operation.
\<close>

record 'f float_ops =
  f_lit :: "int \<Rightarrow> 'f"
  f_of_i64 :: "int \<Rightarrow> 'f"
  f_add :: "'f \<Rightarrow> 'f \<Rightarrow> 'f"
  f_div :: "'f \<Rightarrow> 'f \<Rightarrow> 'f"
  f_mul_add :: "'f \<Rightarrow> 'f \<Rightarrow> 'f \<Rightarrow> 'f"

definition score_model ::
  "'f float_ops \<Rightarrow> neuronos_model_entry \<Rightarrow> neuronos_hw_info \<Rightarrow> 'f" where
  "score_model ops entry hw =
     (if est_ram_mb entry > model_budget_mb hw then f_lit ops (- 1)
      else
        let score0 = f_add ops (f_lit ops 0) (f_lit ops 1000);
            params_b = c_div (n_params_est entry) 1000000000;
            score1 = (if params_b \<ge> 8 then f_add ops score0 (f_lit ops 100)
                      else if params_b \<ge> 4 then f_add ops score0 (f_lit ops 80)
                      else if params_b \<ge> 2 then f_add ops score0 (f_lit ops 60)
                      else if params_b \<ge> 1 then f_add ops score0 (f_lit ops 30)
                      else f_add ops score0 (f_lit ops 10));
            headroom = f_div ops (f_of_i64 ops (model_budget_mb hw - est_ram_mb entry))
                         (f_of_i64 ops (model_budget_mb hw));
            score2 = f_mul_add ops headroom (f_lit ops 50) score1;
            score3 = (if strstr (entry_name entry) ''i2_s'' \<or> strstr (entry_name entry) ''I2_S''
                         \<or> strstr (entry_name entry) ''1.58'' \<or> strstr (entry_name entry) ''bitnet''
                         \<or> strstr (entry_name entry) ''BitNet''
                      then f_add ops score2 (f_lit ops 25) else score2);
            score4 = (if strstr (entry_name entry) ''nstruct'' \<or> strstr (entry_name entry) ''chat''
                         \<or> strstr (entry_name entry) ''Chat''
                      then f_add ops score3 (f_lit ops 15) else score3)
        in score4)"

subsection \<open>IEEE 754 single precision\<close>

text \<open>
  The arithmetic of the usual platforms: binary32, round to nearest with ties to even,
  each operation rounded on its own (\<open>FLT_EVAL_METHOD\<close> 0, no contraction). A finite
  float is the real number it denotes; \<open>None\<close> stands for an infinity or a NaN. In
  \<open>score_model\<close> such a value can only come from the quotient (a budget of 0), and it
  then meets only a product with 50 and sums with finite values, which leave it an
  infinity or a NaN.

  \<open>round_f32 x\<close> is the float nearest to the real \<open>x\<close>. \<open>f32_exp_search k x\<close> is the
  exponent \<open>e\<close> with \<open>2 ^ e \<le> x < 2 ^ (e + 1)\<close>, for a positive \<open>x\<close> within \<open>k\<close>
  binary orders of magnitude of 1; the floats lie between \<open>2 ^ - 149\<close> and
  \<open>2 ^ 128\<close>, and with 300 steps a larger \<open>x\<close> still gets an exponent that makes it
  overflow and a smaller one is rounded on the subnormal grid. The significand has 24
  bits, so the spacing of the floats around \<open>x\<close> is \<open>2 ^ (e - 23)\<close>, with \<open>e\<close> no
  less than \<open>- 126\<close>.
\<close>

fun f32_exp_search :: "nat \<Rightarrow> real \<Rightarrow> int" where
  "f32_exp_search 0 x = 0"
| "f32_exp_search (Suc k) x =
     (if x \<ge> 2 then f32_exp_search k (x / 2) + 1
      else if x < 1 then f32_exp_search k (x * 2) - 1
      else 0)"

definition pow2 :: "int \<Rightarrow> real" where
  "pow2 e = (if e \<ge> 0 then 2 ^ nat e else 1 / 2 ^ nat (- e))"

definition round_to_even :: "real \<Rightarrow> int" where
  "round_to_even x =
     (let f = \<lfloor>x\<rfloor>; d = x - of_int f
      in if d < 1 / 2 then f else if d > 1 / 2 then f + 1 else if even f then f else f + 1)"

definition round_f32 :: "real \<Rightarrow> real option" where
  "round_f32 x =
     (if x = 0 then Some 0
      else
        let e = max (f32_exp_search 300 \<bar>x\<bar>) (- 126);
            ulp = pow2 (e - 23);
            r = of_int (round_to_even (x / ulp)) * ulp
        in if \<bar>r\<bar> \<ge> pow2 128 then None else Some r)"

definition f32_add :: "real option \<Rightarrow> real option \<Rightarrow> real option" where
  "f32_add a b = (case a of None \<Rightarrow> None | Some x \<Rightarrow>
                    (case b of None \<Rightarrow> None | Some y \<Rightarrow> round_f32 (x + y)))"

definition f32_mul :: "real option \<Rightarrow> real option \<Rightarrow> real option" where
  "f32_mul a b = (case a of None \<Rightarrow> None | Some x \<Rightarrow>
                    (case b of None \<Rightarrow> None | Some y \<Rightarrow> round_f32 (x * y)))"

definition f32_div :: "real option \<Rightarrow> real option \<Rightarrow> real option" where
  "f32_div a b = (case a of None \<Rightarrow> None | Some x \<Rightarrow>
                    (case b of None \<Rightarrow> None | Some y \<Rightarrow>
                       if y = 0 then None else round_f32 (x / y)))"

definition f32_ops :: "real option float_ops" where
  "f32_ops = \<lparr> f_lit = (\<lambda>c. round_f32 (of_int c)),
               f_of_i64 = (\<lambda>i. round_f32 (of_int i)),
               f_add = f32_add,
               f_div = f32_div,
               f_mul_add = (\<lambda>x y z. f32_add z (f32_mul x y)) \<rparr>"

subsection \<open>The scoring rule of the specification\<close>

text \<open>
  The scoring rule in the words of the specification, to compare \<open>score_model\<close> with:
  \<open>contains\<close> is the occurrence of a substring, and the arithmetic is that of the real
  numbers.
\<close>

definition contains :: "string \<Rightarrow> string \<Rightarrow> bool" where
  "contains s needle = sublist needle s"

definition quality_tier :: "int \<Rightarrow> int" where
  "quality_tier params =
     (if params < 1000000000 then 10
      else if params < 2000000000 then 30
      else if params < 4000000000 then 60
      else if params < 8000000000 then 80
      else 100)"

definition spec_score :: "neuronos_model_entry \<Rightarrow> neuronos_hw_info \<Rightarrow> real" where
  "spec_score entry hw =
     (if est_ram_mb entry > model_budget_mb hw then - 1
      else 1000 + real_of_int (quality_tier (n_params_est entry))
           + 50 * real_of_int (model_budget_mb hw - est_ram_mb entry)
               / real_of_int (model_budget_mb hw)
           + (if contains (entry_name entry) ''i2_s'' \<or> contains (entry_name entry) ''I2_S''
                 \<or> contains (entry_name entry) ''1.58'' \<or> contains (entry_name entry) ''bitnet''
                 \<or> contains (entry_name entry) ''BitNet'' then 25 else 0)
           + (if contains (entry_name entry) ''instruct'' \<or> contains (entry_name entry) ''chat''
                 \<or> contains (entry_name entry) ''Chat'' then 15 else 0))"

section \<open>Tool registry (\<open>neuronos_tool_registry.c\<close>)\<close>

subsection \<open>Data\<close>

text \<open>
  A C string pointer is a \<open>string option\<close>: \<open>None\<close> for \<open>NULL\<close>, otherwise the
  text found at the pointer when the call reads it. The registry pointer and the function
  pointer \<open>execute\<close> are options too. \<open>user_data\<close> is an opaque address. An executor
  is the function the descriptor holds: it maps the argument string and the user data to
  a result.

  \<open>neuronos_tool_register\<close> stores the descriptor with \<open>tools[count] = *desc\<close>: it keeps
  the caller's pointers and copies no text. A registry of the model is therefore the
  registry as one call sees it, the \<open>name\<close> of each stored descriptor being the text at
  its pointer during that call. No function of the file writes to these texts, so they
  are fixed within a call; between two calls the caller may write to them, which is a
  step of its own (\<open>registry_step\<close> below).
\<close>

type_synonym user_data = nat

record neuronos_tool_result =
  success :: bool
  "output" :: "string option"
  error :: "string option"

record neuronos_tool_desc =
  name :: "string option"
  description :: "string option"
  args_schema_json :: "string option"
  execute :: "(string \<Rightarrow> user_data \<Rightarrow> neuronos_tool_result) option"
  user_data :: user_data
  required_caps :: u32

text \<open>
  \<open>struct neuronos_tool_reg\<close>: the array \<open>tools[NEURONOS_MAX_TOOLS]\<close> is a list of
  64 descriptors, \<open>count\<close> is a C \<open>int\<close>.
\<close>

definition NEURONOS_MAX_TOOLS :: int where
  "NEURONOS_MAX_TOOLS = 64"

record neuronos_tool_reg =
  tools :: "neuronos_tool_desc list"
  count :: int

definition zero_desc :: neuronos_tool_desc where
  "zero_desc = \<lparr> name = None, description = None, args_schema_json = None, execute = None,
                 user_data = 0, required_caps = 0 \<rparr>"

text \<open>\<open>calloc\<close> returns zeroed memory or \<open>NULL\<close>; \<open>malloc_ok\<close> says which.\<close>

definition neuronos_tool_registry_create :: "bool \<Rightarrow> neuronos_tool_reg option" where
  "neuronos_tool_registry_create malloc_ok =
     (if malloc_ok then Some \<lparr> tools = replicate (nat NEURONOS_MAX_TOOLS) zero_desc, count = 0 \<rparr>
      else None)"

subsection \<open>Lookup by name\<close>

text \<open>
  The linear scan that both \<open>neuronos_tool_register\<close> (duplicate check) and
  \<open>neuronos_tool_execute\<close> (find tool) run:
  \<^verbatim>\<open>for (int i = 0; i < reg->count; i++) if (strcmp(reg->tools[i].name, nm) == 0) ...\<close>
  started at index \<open>i\<close>; the result is the first index whose name equals \<open>nm\<close>.
\<close>

function find_tool :: "neuronos_tool_reg \<Rightarrow> string \<Rightarrow> int \<Rightarrow> int option" where
  "find_tool reg nm i =
     (if i < count reg
      then (if name (tools reg ! nat i) = Some nm then Some i else find_tool reg nm (i + 1))
      else None)"
  by pat_completeness auto
termination
  by (relation "measure (\<lambda>(reg, nm, i). nat (count reg - i))") auto

declare find_tool.simps [simp del]

subsection \<open>\<open>neuronos_tool_register\<close>\<close>

text \<open>
  The result is the returned \<open>int\<close> and the registry after the call.
\<close>

definition neuronos_tool_register ::
  "neuronos_tool_reg option \<Rightarrow> neuronos_tool_desc option \<Rightarrow> int \<times> neuronos_tool_reg option" where
  "neuronos_tool_register reg desc =
     (case reg of
        None \<Rightarrow> (- 1, reg)
      | Some r \<Rightarrow>
          (case desc of
             None \<Rightarrow> (- 1, reg)
           | Some d \<Rightarrow>
               (case name d of
                  None \<Rightarrow> (- 1, reg)
                | Some nm \<Rightarrow>
                    (case execute d of
                       None \<Rightarrow> (- 1, reg)
                     | Some f \<Rightarrow>
                         if count r \<ge> NEURONOS_MAX_TOOLS then (- 1, reg)
                         else
                           (case find_tool r nm 0 of
                              Some i \<Rightarrow> (- 1, reg)
                            | None \<Rightarrow>
                                (0, Some (r\<lparr> tools := (tools r)[nat (count r) := d],
                                              count := count r + 1 \<rparr>)))))))"

text \<open>
  What a caller does with a registry over time: it calls \<open>neuronos_tool_register\<close>
  (\<open>Register\<close>, the result ignored), and between the calls it may write to its own name
  buffers, those the registry points to included. \<open>Overwrite_name i s\<close> is such a write:
  afterwards the text at the name pointer of \<open>tools[i]\<close> is \<open>s\<close>; it touches nothing
  when no tool is registered at index \<open>i\<close>, and it never touches \<open>count\<close> or the
  pointers themselves.
\<close>

datatype registry_step =
    Register "neuronos_tool_desc option"
  | Overwrite_name nat string

fun run_step :: "neuronos_tool_reg option \<Rightarrow> registry_step \<Rightarrow> neuronos_tool_reg option" where
  "run_step reg (Register desc) = snd (neuronos_tool_register reg desc)"
| "run_step None (Overwrite_name i s) = None"
| "run_step (Some r) (Overwrite_name i s) =
     (if int i < count r
      then Some (r\<lparr> tools := (tools r)[i := (tools r ! i)\<lparr> name := Some s \<rparr>] \<rparr>)
      else Some r)"

definition run_steps ::
  "neuronos_tool_reg option \<Rightarrow> registry_step list \<Rightarrow> neuronos_tool_reg option" where
  "run_steps reg steps = fold (\<lambda>step r. run_step r step) steps reg"

text \<open>
  A step writes to a registered name when it is a write to the name of a tool below
  \<open>count\<close>; \<open>names_untouched reg steps\<close> says that no step of the sequence, run from
  \<open>reg\<close>, does.
\<close>

fun writes_registered_name :: "neuronos_tool_reg option \<Rightarrow> registry_step \<Rightarrow> bool" where
  "writes_registered_name reg (Register desc) = False"
| "writes_registered_name None (Overwrite_name i s) = False"
| "writes_registered_name (Some r) (Overwrite_name i s) = (int i < count r)"

fun names_untouched :: "neuronos_tool_reg option \<Rightarrow> registry_step list \<Rightarrow> bool" where
  "names_untouched reg [] = True"
| "names_untouched reg (step # steps) =
     (\<not> writes_registered_name reg step \<and> names_untouched (run_step reg step) steps)"

subsection \<open>\<open>neuronos_tool_execute\<close>\<close>

text \<open>
  The executor is called through the function pointer. To state which executor ran and
  with what, the model returns, beside the result, the list of calls made: the index of
  the tool, the argument string and the user data passed. A call through a null function
  pointer is \<open>None\<close>; register never stores one.
\<close>

record tool_call =
  call_index :: int
  call_args :: string
  call_user_data :: user_data

definition neuronos_tool_execute ::
  "neuronos_tool_reg option \<Rightarrow> string option \<Rightarrow> string option
     \<Rightarrow> (neuronos_tool_result \<times> tool_call list) option" where
  "neuronos_tool_execute reg tool_name args_json =
     (case reg of
        None \<Rightarrow> Some (\<lparr> success = False, output = None, error = Some ''Invalid arguments'' \<rparr>, [])
      | Some r \<Rightarrow>
          (case tool_name of
             None \<Rightarrow>
               Some (\<lparr> success = False, output = None, error = Some ''Invalid arguments'' \<rparr>, [])
           | Some nm \<Rightarrow>
               (case find_tool r nm 0 of
                  Some i \<Rightarrow>
                    (case execute (tools r ! nat i) of
                       None \<Rightarrow> None
                     | Some f \<Rightarrow>
                         let a = (case args_json of Some a \<Rightarrow> a | None \<Rightarrow> ''{}'');
                             u = user_data (tools r ! nat i)
                         in Some (f a u,
                                  [\<lparr> call_index = i, call_args = a, call_user_data = u \<rparr>]))
                | None \<Rightarrow>
                    Some (\<lparr> success = False, output = None, error = Some ''Tool not found'' \<rparr>,
                          []))))"

subsection \<open>Inspection\<close>

definition neuronos_tool_count :: "neuronos_tool_reg option \<Rightarrow> int" where
  "neuronos_tool_count reg = (case reg of None \<Rightarrow> 0 | Some r \<Rightarrow> count r)"

definition neuronos_tool_name :: "neuronos_tool_reg option \<Rightarrow> int \<Rightarrow> string option" where
  "neuronos_tool_name reg index =
     (case reg of
        None \<Rightarrow> None
      | Some r \<Rightarrow>
          if index < 0 \<or> index \<ge> count r then None else name (tools r ! nat index))"

subsection \<open>\<open>neuronos_tool_grammar_names\<close>\<close>

text \<open>
  The characters \<open>"\<close> and \<open>\\<close> of the C literals.
\<close>

definition dq :: char where
  "dq = CHR 0x22"

definition bsl :: char where
  "bsl = CHR 0x5C"

text \<open>
  The function builds its result with \<open>snprintf(buf + len, cap - len, ...)\<close> and
  \<open>len += \<close> the value returned. \<open>buf_text\<close> is the C string in the buffer,
  \<open>buf_len\<close> the variable \<open>len\<close>. With \<open>len \<le> cap\<close> the call writes at most
  \<open>cap - len - 1\<close> characters and a terminator (nothing at all when \<open>cap - len = 0\<close>)
  and returns the length of the whole text, written or not. With \<open>len > cap\<close> the
  unsigned difference \<open>cap - len\<close> wraps around to a huge size and \<open>buf + len\<close> lies
  past the allocation, so the call writes outside the buffer: \<open>None\<close>.
  Before any truncation the text in the buffer has length \<open>len\<close>; after one,
  \<open>len \<ge> cap\<close> and nothing more is written inside the buffer.
\<close>

record sn_buf =
  buf_text :: string
  buf_len :: nat

definition snprintf_at :: "nat \<Rightarrow> sn_buf \<Rightarrow> string \<Rightarrow> sn_buf option" where
  "snprintf_at cap b s =
     (if buf_len b > cap then None
      else Some \<lparr> buf_text = (if cap - buf_len b = 0 then buf_text b
                              else buf_text b @ take (cap - buf_len b - 1) s),
                  buf_len = buf_len b + length s \<rparr>)"

text \<open>
  The body of the loop for the tool at index \<open>i\<close>: the separator when \<open>i > 0\<close>,
  then \<open>"\"\<close>, the name, \<open>\""\<close>. Formatting a null name with \<open>%s\<close> is undefined
  (\<open>None\<close>); register never stores one.
\<close>

definition grammar_emit :: "nat \<Rightarrow> int \<Rightarrow> neuronos_tool_desc \<Rightarrow> sn_buf \<Rightarrow> sn_buf option" where
  "grammar_emit cap i t b =
     (case name t of
        None \<Rightarrow> None
      | Some nm \<Rightarrow>
          Option.bind (if i > 0 then snprintf_at cap b '' | '' else Some b) (\<lambda>b1.
          Option.bind (snprintf_at cap b1 [dq, bsl, dq]) (\<lambda>b2.
          Option.bind (snprintf_at cap b2 nm) (\<lambda>b3.
          snprintf_at cap b3 [bsl, dq, dq]))))"

function grammar_loop :: "nat \<Rightarrow> neuronos_tool_reg \<Rightarrow> int \<Rightarrow> sn_buf \<Rightarrow> sn_buf option" where
  "grammar_loop cap reg i b =
     (if i < count reg
      then (case grammar_emit cap i (tools reg ! nat i) b of
              None \<Rightarrow> None
            | Some b' \<Rightarrow> grammar_loop cap reg (i + 1) b')
      else Some b)"
  by pat_completeness auto
termination
  by (relation "measure (\<lambda>(cap, reg, i, b). nat (count reg - i))") auto

declare grammar_loop.simps [simp del]

text \<open>
  The result: the string returned, \<open>NULL\<close> when \<open>malloc\<close> failed, or undefined
  behaviour (a write outside the buffer).
\<close>

datatype grammar_result = Grammar string | Null_result | Undefined_behaviour

definition noop_grammar :: string where
  "noop_grammar = ''tool-name ::= '' @ [dq, bsl, dq] @ ''noop'' @ [bsl, dq, dq]"

definition neuronos_tool_grammar_names :: "bool \<Rightarrow> neuronos_tool_reg option \<Rightarrow> grammar_result" where
  "neuronos_tool_grammar_names malloc_ok reg =
     (case reg of
        None \<Rightarrow> Grammar noop_grammar
      | Some r \<Rightarrow>
          if count r = 0 then Grammar noop_grammar
          else
            let cap = 256 + nat (count r) * 40
            in if \<not> malloc_ok then Null_result
               else
                 (case Option.bind
                         (snprintf_at cap \<lparr> buf_text = [], buf_len = 0 \<rparr> ''tool-name ::= '')
                         (grammar_loop cap r 0) of
                    None \<Rightarrow> Undefined_behaviour
                  | Some b \<Rightarrow> Grammar (buf_text b)))"

text \<open>
  The grammar rule the function is meant to return for the names \<open>t1\<close>, \<open>t2\<close>, ...:
  \<^verbatim>\<open>tool-name ::= "\"t1\"" | "\"t2\"" | ...\<close>
\<close>

definition quoted_name :: "string \<Rightarrow> string" where
  "quoted_name nm = [dq, bsl, dq] @ nm @ [bsl, dq, dq]"

fun join_alternatives :: "string list \<Rightarrow> string" where
  "join_alternatives [] = []"
| "join_alternatives [a] = a"
| "join_alternatives (a # b # rest) = a @ '' | '' @ join_alternatives (b # rest)"

definition grammar_rule :: "string list \<Rightarrow> string" where
  "grammar_rule names = ''tool-name ::= '' @ join_alternatives (map quoted_name names)"

subsection \<open>\<open>neuronos_tool_register_defaults\<close>\<close>

text \<open>
  The constants \<open>NEURONOS_CAP_SHELL\<close> and \<open>NEURONOS_CAP_FILESYSTEM\<close> come from a
  header that is not part of the sources at hand: they are the parameters \<open>cap_shell\<close>
  and \<open>cap_filesystem\<close>. The four built-in executors run commands and touch files; the
  registry only stores them, so they are parameters too.
\<close>

record builtin_tools =
  tool_shell :: "string \<Rightarrow> user_data \<Rightarrow> neuronos_tool_result"
  tool_read_file :: "string \<Rightarrow> user_data \<Rightarrow> neuronos_tool_result"
  tool_write_file :: "string \<Rightarrow> user_data \<Rightarrow> neuronos_tool_result"
  tool_calculate :: "string \<Rightarrow> user_data \<Rightarrow> neuronos_tool_result"

text \<open>A JSON string token: the text between two double quotes.\<close>

definition json_str :: "string \<Rightarrow> string" where
  "json_str s = dq # s @ [dq]"

definition desc_shell :: "u32 \<Rightarrow> builtin_tools \<Rightarrow> neuronos_tool_desc" where
  "desc_shell cap_shell bt =
     \<lparr> name = Some ''shell'',
       description = Some ''Execute a shell command and return its output.'',
       args_schema_json = Some (
     ''{'' @ json_str ''type'' @ '':'' @ json_str ''object'' @ '','' @ json_str ''properties'' @ '':{'' @
     json_str ''command'' @ '':{'' @ json_str ''type'' @ '':'' @ json_str ''string'' @ '','' @
     json_str ''description'' @ '':'' @ json_str ''The shell command to execute'' @ ''}},'' @
     json_str ''required'' @ '':['' @ json_str ''command'' @ '']}''),
       execute = Some (tool_shell bt), user_data = 0, required_caps = cap_shell \<rparr>"

definition desc_read :: "u32 \<Rightarrow> builtin_tools \<Rightarrow> neuronos_tool_desc" where
  "desc_read cap_filesystem bt =
     \<lparr> name = Some ''read_file'',
       description = Some ''Read the contents of a file (max 32KB).'',
       args_schema_json = Some (
     ''{'' @ json_str ''type'' @ '':'' @ json_str ''object'' @ '','' @ json_str ''properties'' @ '':{'' @
     json_str ''path'' @ '':{'' @ json_str ''type'' @ '':'' @ json_str ''string'' @ '','' @
     json_str ''description'' @ '':'' @ json_str ''File path to read'' @ ''}},'' @ json_str ''required'' @
     '':['' @ json_str ''path'' @ '']}''),
       execute = Some (tool_read_file bt), user_data = 0, required_caps = cap_filesystem \<rparr>"

definition desc_write :: "u32 \<Rightarrow> builtin_tools \<Rightarrow> neuronos_tool_desc" where
  "desc_write cap_filesystem bt =
     \<lparr> name = Some ''write_file'',
       description = Some ''Write content to a file.'',
       args_schema_json = Some (
     ''{'' @ json_str ''type'' @ '':'' @ json_str ''object'' @ '','' @ json_str ''properties'' @ '':{'' @
     json_str ''path'' @ '':{'' @ json_str ''type'' @ '':'' @ json_str ''string'' @ ''},'' @ json_str ''content'' @
     '':{'' @ json_str ''type'' @ '':'' @ json_str ''string'' @ ''}},'' @ json_str ''required'' @ '':['' @
     json_str ''path'' @ '','' @ json_str ''content'' @ '']}''),
       execute = Some (tool_write_file bt), user_data = 0, required_caps = cap_filesystem \<rparr>"

definition desc_calc :: "builtin_tools \<Rightarrow> neuronos_tool_desc" where
  "desc_calc bt =
     \<lparr> name = Some ''calculate'',
       description = Some ''Evaluate a mathematical expression (uses bc).'',
       args_schema_json = Some (
     ''{'' @ json_str ''type'' @ '':'' @ json_str ''object'' @ '','' @ json_str ''properties'' @ '':{'' @
     json_str ''expression'' @ '':{'' @ json_str ''type'' @ '':'' @ json_str ''string'' @ '','' @
     json_str ''description'' @ '':'' @ json_str ''Math expression, e.g. 2+2, sqrt(144)'' @ ''}},'' @
     json_str ''required'' @ '':['' @ json_str ''expression'' @ '']}''),
       execute = Some (tool_calculate bt), user_data = 0, required_caps = 0 \<rparr>"

text \<open>\<^verbatim>\<open>if (neuronos_tool_register(reg, &desc) == 0) registered++;\<close>\<close>

definition register_counting ::
  "neuronos_tool_desc \<Rightarrow> int \<times> neuronos_tool_reg option \<Rightarrow> int \<times> neuronos_tool_reg option" where
  "register_counting d st =
     (let (rc, reg') = neuronos_tool_register (snd st) (Some d)
      in (if rc = 0 then fst st + 1 else fst st, reg'))"

definition neuronos_tool_register_defaults ::
  "u32 \<Rightarrow> u32 \<Rightarrow> builtin_tools \<Rightarrow> neuronos_tool_reg option \<Rightarrow> u32
     \<Rightarrow> int \<times> neuronos_tool_reg option" where
  "neuronos_tool_register_defaults cap_shell cap_filesystem bt reg allowed_caps =
     (case reg of
        None \<Rightarrow> (- 1, reg)
      | Some r \<Rightarrow>
          let st0 = (0, reg);
              st1 = (if allowed_caps AND cap_shell \<noteq> 0
                     then register_counting (desc_shell cap_shell bt) st0 else st0);
              st2 = (if allowed_caps AND cap_filesystem \<noteq> 0
                     then register_counting (desc_write cap_filesystem bt)
                            (register_counting (desc_read cap_filesystem bt) st1)
                     else st1)
          in register_counting (desc_calc bt) st2)"

subsection \<open>Registries that register can produce\<close>

text \<open>
  What every registry built by \<open>neuronos_tool_registry_create\<close> and
  \<open>neuronos_tool_register\<close> satisfies as long as the caller leaves the registered names
  alone: the count is between 0 and 64, the array has its 64 slots, the names below
  \<open>count\<close> are distinct, and no tool below \<open>count\<close> has a null name or a null
  executor. \<open>registry_ok\<close> is the part of it that the caller's writes cannot break.
\<close>

definition registry_ok :: "neuronos_tool_reg \<Rightarrow> bool" where
  "registry_ok r \<longleftrightarrow>
     0 \<le> count r \<and> count r \<le> 64 \<and> length (tools r) = 64 \<and>
     list_all (\<lambda>i. name (tools r ! i) \<noteq> None \<and> execute (tools r ! i) \<noteq> None)
       [0..<nat (count r)]"

definition registry_wf :: "neuronos_tool_reg \<Rightarrow> bool" where
  "registry_wf r \<longleftrightarrow>
     0 \<le> count r \<and> count r \<le> 64 \<and> length (tools r) = 64 \<and>
     distinct (map (\<lambda>i. name (tools r ! i)) [0..<nat (count r)]) \<and>
     list_all (\<lambda>i. name (tools r ! i) \<noteq> None \<and> execute (tools r ! i) \<noteq> None)
       [0..<nat (count r)]"

subsection \<open>A tool for examples\<close>

text \<open>
  A caller's tool, as any user of the registry can register one: an executor that returns
  its argument string, and a descriptor with a given name and required capability mask.
\<close>

definition echo_tool :: "string \<Rightarrow> user_data \<Rightarrow> neuronos_tool_result" where
  "echo_tool a u = \<lparr> success = True, output = Some a, error = None \<rparr>"

definition example_desc :: "string \<Rightarrow> u32 \<Rightarrow> neuronos_tool_desc" where
  "example_desc nm caps =
     \<lparr> name = Some nm, description = None, args_schema_json = None,
       execute = Some echo_tool, user_data = 0, required_caps = caps \<rparr>"

definition example_registry :: neuronos_tool_reg where
  "example_registry =
     \<lparr> tools = (replicate 64 zero_desc)[0 := example_desc ''shell'' 1], count = 1 \<rparr>"

definition full_registry :: neuronos_tool_reg where
  "full_registry =
     \<lparr> tools = map (\<lambda>i. example_desc (replicate (Suc i) CHR ''t'') 0) [0..<64], count = 64 \<rparr>"

definition example_builtins :: builtin_tools where
  "example_builtins = \<lparr> tool_shell = echo_tool, tool_read_file = echo_tool,
       tool_write_file = echo_tool, tool_calculate = echo_tool \<rparr>"

text \<open>The names of the registered tools, in registration order.\<close>

definition tool_name_list :: "neuronos_tool_reg \<Rightarrow> string list" where
  "tool_name_list r = map (\<lambda>i. the (name (tools r ! i))) [0..<nat (count r)]"

chapter \<open>Properties\<close>

section \<open>Packing and unpacking\<close>

text \<open>
  The packing loops only ever OR a shifted code into a byte, so a bit of a packed byte is
  set exactly when some weight that lands in that byte sets it.
\<close>

lemma length_pack_step [simp]: "length (pack_step q8 blk j out) = length out"
  by (simp add: pack_step_def Let_def)

lemma length_fold_pack_step [simp]: "length (fold (pack_step q8 blk) js out) = length out"
  by (induction js arbitrary: out) simp_all

lemma bit_pack_step:
  assumes "p < length out"
  shows "bit (pack_step q8 blk j out ! p) m \<longleftrightarrow>
     bit (out ! p) m \<or>
     (blk * 32 + j mod 32 = p \<and> bit (push_bit (6 - 2 * (j div 32)) (q8 ! (blk * 128 + j))) m)"
proof (cases "blk * 32 + j mod 32 = p")
  case True
  then show ?thesis using assms by (auto simp: pack_step_def Let_def bit_or_iff)
next
  case False
  then show ?thesis by (simp add: pack_step_def Let_def)
qed

lemma bit_fold_pack_step:
  "p < length out \<Longrightarrow>
   bit (fold (pack_step q8 blk) js out ! p) m \<longleftrightarrow>
     bit (out ! p) m \<or>
     (\<exists>j\<in>set js. blk * 32 + j mod 32 = p \<and>
        bit (push_bit (6 - 2 * (j div 32)) (q8 ! (blk * 128 + j))) m)"
proof (induction js arbitrary: out)
  case Nil
  then show ?case by simp
next
  case (Cons j js)
  have "p < length (pack_step q8 blk j out)" using Cons.prems by simp
  from Cons.IH [OF this] show ?case
    using Cons.prems by (auto simp: bit_pack_step)
qed

lemma length_fold_blocks [simp]:
  "length (fold (\<lambda>blk out. fold (pack_step q8 blk) js out) blks out) = length out"
  by (induction blks arbitrary: out) simp_all

lemma bit_fold_blocks:
  "p < length out \<Longrightarrow>
   bit (fold (\<lambda>blk out. fold (pack_step q8 blk) js out) blks out ! p) m \<longleftrightarrow>
     bit (out ! p) m \<or>
     (\<exists>blk\<in>set blks. \<exists>j\<in>set js. blk * 32 + j mod 32 = p \<and>
        bit (push_bit (6 - 2 * (j div 32)) (q8 ! (blk * 128 + j))) m)"
proof (induction blks arbitrary: out)
  case Nil
  then show ?case by simp
next
  case (Cons blk blks)
  have "p < length (fold (pack_step q8 blk) js out)" using Cons.prems by simp
  from Cons.IH [OF this] show ?case
    using Cons.prems by (auto simp: bit_fold_pack_step)
qed

lemma length_pack_i2 [simp]: "length (pack_i2 n q8) = n div 4"
  by (simp add: pack_i2_def)

lemma bit_pack_i2:
  "p < n div 4 \<Longrightarrow>
   bit (pack_i2 n q8 ! p) m \<longleftrightarrow>
     (\<exists>blk<n div 128. \<exists>j<128. blk * 32 + j mod 32 = p \<and>
        bit (push_bit (6 - 2 * (j div 32)) (q8 ! (blk * 128 + j))) m)"
  by (auto simp: pack_i2_def bit_fold_blocks Bex_def)

lemma and_3_take_bit: "(x :: u8) AND 3 = take_bit 2 x"
proof -
  have "(3 :: u8) = mask 2" by (simp add: mask_eq_exp_minus_1)
  then show ?thesis by (simp only: take_bit_eq_mask)
qed

lemma bit_le_3:
  assumes "v \<le> (3 :: u8)" and "bit v i"
  shows "i < 2"
proof -
  have "v < 2 ^ 2" using assms(1) by (simp add: word_le_nat_alt word_less_nat_alt)
  then have "v AND mask 2 = v" by (rule less_mask_eq)
  then have "take_bit 2 v = v" by (simp only: take_bit_eq_mask)
  then have "bit (take_bit 2 v) i" using assms(2) by simp
  then show ?thesis by (simp add: bit_take_bit_iff)
qed

lemma bit_raw_i2: "bit (raw_i2 b g) m \<longleftrightarrow> m < 2 \<and> bit b (6 - 2 * g + m)"
  by (auto simp: raw_i2_def and_3_take_bit bit_take_bit_iff bit_drop_bit_eq)

lemma blk_byte_in_range:
  fixes blk n j :: nat
  assumes "blk < n div 128"
  shows "blk * 32 + j mod 32 < n div 4"
proof -
  have "Suc blk * 128 \<le> n" using assms by (simp add: less_eq_div_iff_mult_less_eq Suc_le_eq)
  then have "Suc blk * 32 * 4 \<le> n" by simp
  then have "Suc blk * 32 \<le> n div 4" by (simp add: less_eq_div_iff_mult_less_eq)
  moreover have "j mod 32 < 32" by simp
  ultimately show ?thesis by simp
qed

lemma same_slot:
  fixes blk blk' j j' :: nat
  assumes "j < 128" "j' < 128" "blk' * 32 + j' mod 32 = blk * 32 + j mod 32"
    and "j' div 32 = j div 32"
  shows "blk' = blk \<and> j' = j"
proof -
  have q: "j mod 32 < 32" "j' mod 32 < 32" by simp_all
  from assms(3) q have b: "blk' = blk" by arith
  with assms(3) have "j' mod 32 = j mod 32" by simp
  with assms(4) have "j' = j" by (metis div_mult_mod_eq)
  with b show ?thesis by simp
qed

lemma bit_push_field:
  fixes w :: u8 and g g' m :: nat
  assumes "w \<le> 3" "g < 4" "g' < 4" "m < 2"
    and "bit (push_bit (6 - 2 * g') w) (6 - 2 * g + m)"
  shows "g' = g \<and> bit w m"
proof -
  from assms(5) have le: "6 - 2 * g' \<le> 6 - 2 * g + m"
    and b: "bit w (6 - 2 * g + m - (6 - 2 * g'))"
    by (simp_all add: bit_push_bit_iff)
  from bit_le_3 [OF assms(1) b] have "6 - 2 * g + m - (6 - 2 * g') < 2" .
  with le assms(2,3,4) have "g' = g" by arith
  with b show ?thesis by simp
qed

lemma bit_push_bit_same:
  fixes w :: u8
  assumes "m < 2"
  shows "bit (push_bit (6 - 2 * g) w) (6 - 2 * g + m) \<longleftrightarrow> bit w m"
proof -
  define s where "s = 6 - 2 * g"
  have "s + m < 8" using assms unfolding s_def by arith
  then have "bit (push_bit s w) (s + m) \<longleftrightarrow> bit w m" by (simp add: bit_push_bit_iff)
  then show ?thesis by (simp only: s_def)
qed

lemma raw_i2_pack_i2:
  fixes blk n j :: nat
  assumes "blk < n div 128" and "j < 128"
    and "\<And>i. i < 128 \<Longrightarrow> q8 ! (blk * 128 + i) \<le> 3"
  shows "raw_i2 (pack_i2 n q8 ! (blk * 32 + j mod 32)) (j div 32) = q8 ! (blk * 128 + j)"
proof (rule bit_word_eqI)
  fix m assume "m < LENGTH(8)"
  have p: "blk * 32 + j mod 32 < n div 4" using assms(1) by (rule blk_byte_in_range)
  have g: "j div 32 < 4" using assms(2) by simp
  show "bit (raw_i2 (pack_i2 n q8 ! (blk * 32 + j mod 32)) (j div 32)) m
      = bit (q8 ! (blk * 128 + j)) m"
  proof (cases "m < 2")
    case False
    then show ?thesis using bit_le_3 [OF assms(3) [OF assms(2)], of m] by (auto simp: bit_raw_i2)
  next
    case True
    have "bit (pack_i2 n q8 ! (blk * 32 + j mod 32)) (6 - 2 * (j div 32) + m)
        \<longleftrightarrow> bit (q8 ! (blk * 128 + j)) m" (is "?L \<longleftrightarrow> ?R")
    proof
      assume ?L
      then obtain blk' j' where h: "blk' < n div 128" "j' < 128"
          "blk' * 32 + j' mod 32 = blk * 32 + j mod 32"
          "bit (push_bit (6 - 2 * (j' div 32)) (q8 ! (blk' * 128 + j'))) (6 - 2 * (j div 32) + m)"
        using bit_pack_i2 [OF p] by blast
      have q: "j mod 32 < 32" "j' mod 32 < 32" by simp_all
      from h(3) q have b: "blk' = blk" by arith
      have g': "j' div 32 < 4" using h(2) by simp
      have "q8 ! (blk' * 128 + j') \<le> 3" using assms(3) [OF h(2)] b by simp
      from bit_push_field [OF this g g' True h(4)]
      have e: "j' div 32 = j div 32" and r: "bit (q8 ! (blk' * 128 + j')) m" by simp_all
      from same_slot [OF assms(2) h(2) h(3) e] r show ?R by simp
    next
      assume ?R
      then have "bit (push_bit (6 - 2 * (j div 32)) (q8 ! (blk * 128 + j))) (6 - 2 * (j div 32) + m)"
        using True by (simp add: bit_push_bit_same)
      then show ?L using bit_pack_i2 [OF p] assms(1,2) by blast
    qed
    then show ?thesis using True by (simp add: bit_raw_i2)
  qed
qed

lemma bit_push_raw_i2:
  assumes "g < 4"
  shows "bit (push_bit (6 - 2 * g) (raw_i2 b g)) m \<longleftrightarrow> m div 2 = 3 - g \<and> bit b m"
proof -
  define s where "s = 6 - 2 * g"
  have "bit (push_bit s (raw_i2 b g)) m \<longleftrightarrow> s \<le> m \<and> m < 8 \<and> m - s < 2 \<and> bit b (s + (m - s))"
    by (auto simp: bit_push_bit_iff bit_raw_i2 s_def)
  also have "\<dots> \<longleftrightarrow> s \<le> m \<and> m < 8 \<and> m - s < 2 \<and> bit b m" by auto
  also have "\<dots> \<longleftrightarrow> m div 2 = 3 - g \<and> bit b m"
  proof -
    have "bit b m \<Longrightarrow> m < 8" by (auto dest: bit_imp_le_length)
    moreover have "m < 8 \<Longrightarrow> (s \<le> m \<and> m - s < 2) = (m div 2 = 3 - g)"
      using assms unfolding s_def by arith
    ultimately show ?thesis by blast
  qed
  finally show ?thesis by (simp only: s_def)
qed

lemma pack_unpack_block:
  assumes "length x = 32"
  shows "pack_i2 128 (unpack_block x) = x"
proof (rule nth_equalityI)
  show "length (pack_i2 128 (unpack_block x)) = length x" using assms by simp
next
  fix p assume "p < length (pack_i2 128 (unpack_block x))"
  then have p: "p < 32" by simp
  show "pack_i2 128 (unpack_block x) ! p = x ! p"
  proof (rule bit_word_eqI)
    fix m assume m: "m < LENGTH(8)"
    have u: "unpack_block x ! j = raw_i2 (x ! (j mod 32)) (j div 32)" if "j < 128" for j
      using that by (simp add: unpack_block_def)
    have "bit (pack_i2 128 (unpack_block x) ! p) m \<longleftrightarrow>
        (\<exists>j<128. j mod 32 = p \<and> bit (push_bit (6 - 2 * (j div 32)) (unpack_block x ! j)) m)"
      using p by (simp add: bit_pack_i2)
    also have "\<dots> \<longleftrightarrow> (\<exists>j<128. j mod 32 = p \<and> m div 2 = 3 - j div 32 \<and> bit (x ! p) m)"
    proof -
      have "(j mod 32 = p \<and> bit (push_bit (6 - 2 * (j div 32)) (unpack_block x ! j)) m)
          \<longleftrightarrow> (j mod 32 = p \<and> m div 2 = 3 - j div 32 \<and> bit (x ! p) m)" if "j < 128" for j
      proof -
        have "j div 32 < 4" using that by simp
        from bit_push_raw_i2 [OF this] show ?thesis using that by (auto simp: u)
      qed
      then show ?thesis by blast
    qed
    also have "\<dots> \<longleftrightarrow> bit (x ! p) m"
    proof -
      let ?j = "(3 - m div 2) * 32 + p"
      have "?j < 128" "?j mod 32 = p" "m div 2 = 3 - ?j div 32"
        using p m by (simp_all add: div_add1_eq) 
      then show ?thesis by blast
    qed
    finally show "bit (pack_i2 128 (unpack_block x) ! p) m = bit (x ! p) m" .
  qed
qed

lemma unpack_pack_block:
  assumes "length ws = 128" and "\<forall>v\<in>set ws. v \<le> 3"
  shows "unpack_block (pack_i2 128 ws) = ws"
proof (rule nth_equalityI)
  show "length (unpack_block (pack_i2 128 ws)) = length ws"
    using assms by (simp add: unpack_block_def)
next
  fix j assume "j < length (unpack_block (pack_i2 128 ws))"
  then have j: "j < 128" by (simp add: unpack_block_def)
  have "raw_i2 (pack_i2 128 ws ! (0 * 32 + j mod 32)) (j div 32) = ws ! (0 * 128 + j)"
  proof (rule raw_i2_pack_i2)
    show "0 < (128::nat) div 128" by simp
    show "j < 128" by (rule j)
    show "ws ! (0 * 128 + i) \<le> 3" if "i < 128" for i
      using assms that by (simp add: nth_mem)
  qed
  then show "unpack_block (pack_i2 128 ws) ! j = ws ! j"
    using j by (simp add: unpack_block_def)
qed


text \<open>
  Claim C3. Packing round trip: every sequence \<open>ws\<close> of 128 raw values in \<open>{0, 1, 2}\<close>,
  packed into 32 bytes (the value of weight \<open>j\<close> in byte \<open>j mod 32\<close> at bit offset
  \<open>6 - 2 * (j div 32)\<close>) and unpacked again position by position, is recovered
  exactly; and packing the unpacked codes of any 32 bytes that represent valid 2-bit codes
  gives back those bytes.
\<close>

theorem pack_unpack_roundtrip:
  "(length ws = 128 \<and> set ws \<subseteq> {0, 1, 2} \<longrightarrow> unpack_block (pack_i2 128 ws) = ws) \<and>
   (length x = 32 \<and> valid_codes x \<longrightarrow> pack_i2 128 (unpack_block x) = x)"
proof (intro conjI impI)
  assume a: "length ws = 128 \<and> set ws \<subseteq> {0, 1, 2}"
  then have "\<forall>v\<in>set ws. v \<le> 3" by auto
  with a show "unpack_block (pack_i2 128 ws) = ws" by (simp add: unpack_pack_block)
next
  assume "length x = 32 \<and> valid_codes x"
  then show "pack_i2 128 (unpack_block x) = x" by (simp add: pack_unpack_block)
qed


theorem pack_unpack_roundtrip_witness:
  "length (concat (replicate 32 [0, 1, 2, 1 :: u8])) = 128 \<and>
   set (concat (replicate 32 [0, 1, 2, 1 :: u8])) \<subseteq> {0, 1, 2} \<and>
   unpack_block (pack_i2 128 (concat (replicate 32 [0, 1, 2, 1]))) = concat (replicate 32 [0, 1, 2, 1]) \<and>
   pack_i2 128 (concat (replicate 32 [0, 1, 2, 1])) = concat (replicate 8 [0x00, 0x55, 0xAA, 0x55]) \<and>
   length (concat (replicate 8 [0x64, 0x00, 0xA9, 0x12 :: u8])) = 32 \<and>
   valid_codes (concat (replicate 8 [0x64, 0x00, 0xA9, 0x12])) \<and>
   pack_i2 128 (unpack_block (concat (replicate 8 [0x64, 0x00, 0xA9, 0x12]))) =
     concat (replicate 8 [0x64, 0x00, 0xA9, 0x12])"
proof -
  let ?ws = "concat (replicate 32 [0, 1, 2, 1 :: u8])"
  let ?x = "concat (replicate 8 [0x64, 0x00, 0xA9, 0x12 :: u8])"
  have a: "length ?ws = 128" by code_simp
  have b: "set ?ws \<subseteq> {0, 1, 2}" by code_simp
  have c: "length ?x = 32" by code_simp
  have d: "valid_codes ?x" by code_simp
  have e: "pack_i2 128 ?ws = concat (replicate 8 [0x00, 0x55, 0xAA, 0x55])" by code_simp
  from pack_unpack_roundtrip [of ?ws ?x] a b c d
  have "unpack_block (pack_i2 128 ?ws) = ?ws" and "pack_i2 128 (unpack_block ?x) = ?x"
    by blast+
  with a b c d e show ?thesis by blast
qed

section \<open>The dot product kernel\<close>

lemma fold_add_upt:
  fixes f :: "nat \<Rightarrow> 'a::comm_monoid_add"
  assumes "\<And>j s. g j s = s + f j"
  shows "fold g [0..<k] s = s + (\<Sum>j<k. f j)"
  by (induction k) (simp_all add: assms add.assoc)

lemma dot_step_add:
  "dot_step packed yi j s = s + ucast (raw_i2 (packed (j mod 32)) (j div 32)) * scast (yi j)"
  by (simp add: dot_step_def Let_def)

lemma weight_code_block:
  assumes "j < 128"
  shows "weight_code x_row (j + block * 128) = raw_i2 (x_row (block * 32 + j mod 32)) (j div 32)"
  using assms by (simp add: weight_code_def raw_i2_def Let_def)

lemma dot_row_sum:
  "dot_row nb x_row y = (\<Sum>i<nb * 128. ucast (weight_code x_row i) * scast (y i))"
proof -
  let ?T = "\<lambda>i. (ucast (weight_code x_row i) :: i32) * scast (y i)"
  let ?inner = "\<lambda>block. fold (dot_step (\<lambda>k. x_row (block * 32 + k)) (\<lambda>k. y (block * 128 + k))) [0..<128]"
  have inner: "?inner block s = s + sum ?T {block * 128..<block * 128 + 128}" for block s
  proof -
    have "?inner block s
        = s + (\<Sum>j<128. ucast (raw_i2 (x_row (block * 32 + j mod 32)) (j div 32)) * scast (y (block * 128 + j)))"
      by (rule fold_add_upt) (rule dot_step_add)
    also have "(\<Sum>j<128. (ucast (raw_i2 (x_row (block * 32 + j mod 32)) (j div 32)) :: i32) * scast (y (block * 128 + j)))
        = (\<Sum>j<128. ?T (j + block * 128))"
    proof (rule sum.cong)
      fix j :: nat assume "j \<in> {..<128}"
      then have "j < 128" by simp
      then show "(ucast (raw_i2 (x_row (block * 32 + j mod 32)) (j div 32)) :: i32) * scast (y (block * 128 + j))
          = ?T (j + block * 128)"
        by (simp only: weight_code_block add.commute)
    qed (rule refl)
    also have "\<dots> = sum ?T {0 + block * 128..<128 + block * 128}"
      by (simp only: sum.shift_bounds_nat_ivl lessThan_atLeast0)
    also have "{0 + block * 128..<128 + block * 128} = {block * 128..<block * 128 + 128}"
      by (simp only: add_0 add.commute)
    finally show ?thesis .
  qed
  have "fold ?inner [0..<nb] 0 = 0 + (\<Sum>m<nb. sum ?T {m * 128..<m * 128 + 128})"
    by (rule fold_add_upt) (rule inner)
  then have "dot_row nb x_row y = (\<Sum>m<nb. sum ?T {m * 128..<m * 128 + 128})"
    by (simp only: dot_row_def add_0)
  then show ?thesis by (simp only: sum.nat_group)
qed

lemma word_sum_of_int:
  "(\<Sum>i<k. (ucast (c i :: u8) :: i32) * scast (a i :: i8)) = word_of_int (\<Sum>i<k. uint (c i) * sint (a i))"
  by (simp only: of_int_sum of_int_mult of_int_uint of_int_sint)


text \<open>
  The accumulator cannot wrap around for rows of up to 5592405 weights: each product is at
  most \<open>3 * 128\<close> in magnitude. For such rows the 32-bit sum is the integer sum.
\<close>

lemma uint_weight_code_le: "uint (weight_code x_row i) \<le> 3" and uint_weight_code_ge: "0 \<le> uint (weight_code x_row i)"
proof -
  have "weight_code x_row i \<le> 3"
    by (simp add: weight_code_def Let_def word_and_le1)
  then show "uint (weight_code x_row i) \<le> 3" by (simp add: word_le_def)
  show "0 \<le> uint (weight_code x_row i)" by simp
qed

lemma sint_i8_bounds: "- 128 \<le> sint (a :: i8)" "sint (a :: i8) \<le> 127"
  using sint_ge [of a] sint_lt [of a] by simp_all

lemma term_bound:
  "\<bar>uint (weight_code x_row i) * sint (a :: i8)\<bar> \<le> 384"
proof -
  have "\<bar>uint (weight_code x_row i) * sint a\<bar> = uint (weight_code x_row i) * \<bar>sint a\<bar>"
    by (simp add: abs_mult)
  also have "\<dots> \<le> 3 * 128"
    using uint_weight_code_le [of x_row i] sint_i8_bounds [of a]
    by (intro mult_mono) auto
  finally show ?thesis by simp
qed

lemma dot_sum_bound:
  "\<bar>\<Sum>i<n. uint (weight_code x_row i) * sint (y i :: i8)\<bar> \<le> 384 * int n"
proof -
  have "\<bar>\<Sum>i<n. uint (weight_code x_row i) * sint (y i)\<bar>
      \<le> (\<Sum>i<n. \<bar>uint (weight_code x_row i) * sint (y i)\<bar>)" by (rule sum_abs)
  also have "\<dots> \<le> (\<Sum>i<n. 384)" by (intro sum_mono term_bound)
  finally show ?thesis by simp
qed

lemma scalar_vec_dot_no_wrap:
  assumes "128 dvd n" and "row < nrc" and "n \<le> 5592405"
  shows "scalar_vec_dot_i2_i8 sint n x bx y nrc ! row =
    (\<Sum>i<n. uint (weight_code (\<lambda>k. x (row * (bx div 4) + k)) i) * sint (y i))"
proof -
  let ?S = "\<Sum>i<n. uint (weight_code (\<lambda>k. x (row * (bx div 4) + k)) i) * sint (y i)"
  have "\<bar>?S\<bar> \<le> 384 * int n" by (rule dot_sum_bound)
  also have "\<dots> < 2 ^ 31" using assms(3) by simp
  finally have b: "- (2 ^ (LENGTH(32) - 1)) \<le> ?S" "?S < 2 ^ (LENGTH(32) - 1)" by simp_all
  have "n div 128 * 128 = n" using assms(1) by simp
  then have "scalar_vec_dot_i2_i8 sint n x bx y nrc ! row = sint (word_of_int ?S :: i32)"
    using assms(2)
    by (simp only: scalar_vec_dot_i2_i8_def dot_row_sum word_sum_of_int nth_map_upt add_0
        length_upt diff_zero nth_map nth_upt)
  also have "\<dots> = ?S"
    using b by (simp only: sint_sbintrunc' signed_take_bit_int_eq_self)
  finally show ?thesis .
qed

text \<open>
  Claim C1. For every input of the scalar \<open>vec_dot_i2_i8\<close> with \<open>n\<close> divisible by 128,
  the output of each of the \<open>nrc\<close> rows is the float conversion of an \<open>int32\<close>
  accumulator that sums, over all \<open>n\<close> weights of the row, the raw unsigned 2-bit code
  (unpacked from byte \<open>j mod 32\<close> at bit offset \<open>6 - 2 * (j div 32)\<close> of its block)
  times the \<open>int8\<close> activation; nothing is converted to ternary and no scale is
  applied. The accumulator is the sum of the integers \<open>code * activation\<close>, as a 32-bit
  value.
\<close>

theorem scalar_vec_dot_raw_sum:
  assumes "128 dvd n" and "row < nrc"
  shows "scalar_vec_dot_i2_i8 float_of_i32 n x bx y nrc ! row =
    float_of_i32 (word_of_int
      (\<Sum>i<n. uint (weight_code (\<lambda>k. x (row * (bx div 4) + k)) i) * sint (y i)))"
proof -
  have "n div 128 * 128 = n" using assms(1) by simp
  then show ?thesis using assms(2)
    by (simp only: scalar_vec_dot_i2_i8_def dot_row_sum word_sum_of_int nth_map_upt add_0
        length_upt diff_zero nth_map nth_upt)
qed

theorem scalar_vec_dot_raw_sum_witness:
  "(128 :: nat) dvd 128 \<and> (1 :: nat) < 2 \<and>
   scalar_vec_dot_i2_i8 sint 128 (\<lambda>k. if k < 36 then 0x64 else 0xA9) 144
       (\<lambda>i. if even i then 1 else 0xFE) 2 ! 1 =
     sint (word_of_int
       (\<Sum>i<128. uint (weight_code (\<lambda>k. if 1 * (144 div 4) + k < 36 then 0x64 else 0xA9) i)
                   * sint (if even i then 1 else 0xFE :: i8)) :: i32) \<and>
   scalar_vec_dot_i2_i8 sint 128 (\<lambda>k. if k < 36 then 0x64 else 0xA9) 144
       (\<lambda>i. if even i then 1 else 0xFE) 2 = [- 64, - 112]"
proof -
  have a: "(128 :: nat) dvd 128" by simp
  have b: "(1 :: nat) < 2" by simp
  have c: "scalar_vec_dot_i2_i8 sint 128 (\<lambda>k. if k < 36 then 0x64 else 0xA9) 144
       (\<lambda>i. if even i then 1 else 0xFE) 2 = [- 64, - 112]" by code_simp
  from scalar_vec_dot_raw_sum [OF a b, of sint "\<lambda>k. if k < 36 then 0x64 else 0xA9" 144
      "\<lambda>i. if even i then 1 else 0xFE"] a b c
  show ?thesis by blast
qed

section \<open>Quantization\<close>

















section \<open>Hardware probe\<close>

text \<open>
  Claim C5. For every detection result, \<open>model_budget_mb\<close> equals
  \<open>max(256, ram_available_mb - 500)\<close>: the available RAM minus 500, never below 256.
\<close>

theorem detect_hardware_model_budget:
  "model_budget_mb (neuronos_detect_hardware p) =
     max 256 (ram_available_mb (neuronos_detect_hardware p) - 500)"
  by (simp add: neuronos_detect_hardware_def Let_def max_def)

text \<open>
  On Linux with 8 GiB available the budget is 7692 MB; with no MemAvailable line and
  310 MB free, buffered and cached, it is the minimum of 256 MB.
\<close>

theorem detect_hardware_model_budget_witness:
  "model_budget_mb (neuronos_detect_hardware (Linux 16777216 8388608 0 0 0)) = 7692 \<and>
   model_budget_mb (neuronos_detect_hardware (Linux 524288 0 204800 10240 102400)) = 256"
  using detect_hardware_model_budget [of "Linux 16777216 8388608 0 0 0"]
    detect_hardware_model_budget [of "Linux 524288 0 204800 10240 102400"]
  by (simp add: neuronos_detect_hardware_def c_div_def Let_def)

section \<open>Model scoring\<close>

lemma strstr_sublist: "strstr s needle \<longleftrightarrow> sublist needle s"
  by (induction s) (simp_all add: sublist_Cons_right)

lemma strstr_contains: "strstr s needle = contains s needle"
  by (simp add: contains_def strstr_sublist)

lemma int_le_div_iff:
  fixes k p b :: int
  assumes "0 < b"
  shows "k \<le> p div b \<longleftrightarrow> k * b \<le> p"
proof
  assume "k \<le> p div b"
  then have "k * b \<le> p div b * b" using assms by (simp add: mult_right_mono)
  also have "p div b * b \<le> p"
  proof -
    have "p = p div b * b + p mod b" by simp
    moreover have "0 \<le> p mod b" using assms by simp
    ultimately show ?thesis by linarith
  qed
  finally show "k * b \<le> p" .
next
  assume "k * b \<le> p"
  then have "k * b div b \<le> p div b" using assms by (rule zdiv_mono1)
  then show "k \<le> p div b" using assms by simp
qed

lemma c_div_ge_iff:
  fixes k p b :: int
  assumes "0 < k" and "0 < b"
  shows "k \<le> c_div p b \<longleftrightarrow> k * b \<le> p"
proof (cases "0 \<le> p")
  case True
  then have "c_div p b = p div b"
    using assms(2) by (cases "p = 0") (simp_all add: c_div_def)
  then show ?thesis using assms(2) by (simp add: int_le_div_iff)
next
  case False
  then have "c_div p b \<le> 0"
    using assms(2) by (simp add: c_div_def mult_le_0_iff pos_imp_zdiv_nonneg_iff)
  moreover have "0 < k * b" using assms by simp
  ultimately show ?thesis using False assms(1) by linarith
qed

lemma tier_of_params:
  "(let params_b = c_div p 1000000000
    in if params_b \<ge> 8 then g 100
       else if params_b \<ge> 4 then g 80
       else if params_b \<ge> 2 then g 60
       else if params_b \<ge> 1 then g 30
       else g 10) = g (quality_tier p)"
  by (simp add: Let_def c_div_ge_iff quality_tier_def)

text \<open>
  Claim C4, as the code has it. For every model entry and hardware info, the scoring
  function returns \<open>-1\<close> when \<open>est_ram_mb > model_budget_mb\<close>; otherwise the float
  computed, each operation in the platform's float arithmetic, as 1000 (added to 0), plus
  the quality tier by estimated parameters (below 1B: 10, 1-2B: 30, 2-4B: 60, 4-8B: 80,
  from 8B: 100), plus the headroom \<open>(float)(budget - est_ram) / (float)budget\<close> times 50,
  plus 25 if the name contains one of \<open>i2_s\<close>, \<open>I2_S\<close>, \<open>1.58\<close>, \<open>bitnet\<close>,
  \<open>BitNet\<close>, plus 15 if the name contains one of \<open>nstruct\<close>, \<open>chat\<close>, \<open>Chat\<close>.
  (The claim has \<open>instruct\<close> where the code tests \<open>nstruct\<close>, and does not say that
  the arithmetic is rounded.)
\<close>

theorem score_model_formula:
  "score_model ops entry hw =
     (if est_ram_mb entry > model_budget_mb hw then f_lit ops (- 1)
      else
        let fits = f_add ops (f_lit ops 0) (f_lit ops 1000);
            tiered = f_add ops fits (f_lit ops (quality_tier (n_params_est entry)));
            headroom = f_div ops (f_of_i64 ops (model_budget_mb hw - est_ram_mb entry))
                         (f_of_i64 ops (model_budget_mb hw));
            with_speed = f_mul_add ops headroom (f_lit ops 50) tiered;
            with_format =
              (if contains (entry_name entry) ''i2_s'' \<or> contains (entry_name entry) ''I2_S''
                  \<or> contains (entry_name entry) ''1.58'' \<or> contains (entry_name entry) ''bitnet''
                  \<or> contains (entry_name entry) ''BitNet''
               then f_add ops with_speed (f_lit ops 25) else with_speed)
        in if contains (entry_name entry) ''nstruct'' \<or> contains (entry_name entry) ''chat''
              \<or> contains (entry_name entry) ''Chat''
           then f_add ops with_format (f_lit ops 15) else with_format)"
proof -
  let ?s0 = "f_add ops (f_lit ops 0) (f_lit ops 1000)"
  have tier: "(if 8 \<le> c_div (n_params_est entry) 1000000000 then f_add ops ?s0 (f_lit ops 100)
       else if 4 \<le> c_div (n_params_est entry) 1000000000 then f_add ops ?s0 (f_lit ops 80)
       else if 2 \<le> c_div (n_params_est entry) 1000000000 then f_add ops ?s0 (f_lit ops 60)
       else if 1 \<le> c_div (n_params_est entry) 1000000000 then f_add ops ?s0 (f_lit ops 30)
       else f_add ops ?s0 (f_lit ops 10))
      = f_add ops ?s0 (f_lit ops (quality_tier (n_params_est entry)))"
    using tier_of_params [of "n_params_est entry" "\<lambda>t. f_add ops ?s0 (f_lit ops t)"]
    by (simp only: Let_def)
  show ?thesis
    unfolding score_model_def Let_def strstr_contains tier ..
qed

text \<open>
  In single precision, a 10B instruct model in I2_S format that needs 4650 MB of a budget
  of 5120 MB scores \<open>1144.58984375\<close>: here the headroom \<open>470 / 5120\<close> and its product
  with 50 are floats, and nothing rounds.
\<close>

theorem score_model_formula_witness:
  "score_model f32_ops
     \<lparr> path = ''models/falcon3-10b-instruct-1.58bit-i2_s.gguf'',
       entry_name = ''falcon3-10b-instruct-1.58bit-i2_s'',
       file_size_mb = 3500, est_ram_mb = 4650, n_params_est = 10485760000,
       fits_in_ram = True, score = 0 \<rparr>
     \<lparr> ram_total_mb = 8192, ram_available_mb = 5620, model_budget_mb = 5120 \<rparr>
   = Some (1000 + 100 + 50 * 470 / 5120 + 25 + 15)"
proof -
  let ?hw = "\<lparr> ram_total_mb = 8192, ram_available_mb = 5620, model_budget_mb = 5120 \<rparr>"
  let ?e = "\<lparr> path = ''models/falcon3-10b-instruct-1.58bit-i2_s.gguf'',
       entry_name = ''falcon3-10b-instruct-1.58bit-i2_s'',
       file_size_mb = 3500, est_ram_mb = 4650, n_params_est = 10485760000,
       fits_in_ram = True, score = 0 \<rparr>"
  have rhs: "(if est_ram_mb ?e > model_budget_mb ?hw then f_lit f32_ops (- 1)
      else
        let fits = f_add f32_ops (f_lit f32_ops 0) (f_lit f32_ops 1000);
            tiered = f_add f32_ops fits (f_lit f32_ops (quality_tier (n_params_est ?e)));
            headroom = f_div f32_ops (f_of_i64 f32_ops (model_budget_mb ?hw - est_ram_mb ?e))
                         (f_of_i64 f32_ops (model_budget_mb ?hw));
            with_speed = f_mul_add f32_ops headroom (f_lit f32_ops 50) tiered;
            with_format =
              (if contains (entry_name ?e) ''i2_s'' \<or> contains (entry_name ?e) ''I2_S''
                  \<or> contains (entry_name ?e) ''1.58'' \<or> contains (entry_name ?e) ''bitnet''
                  \<or> contains (entry_name ?e) ''BitNet''
               then f_add f32_ops with_speed (f_lit f32_ops 25) else with_speed)
        in if contains (entry_name ?e) ''nstruct'' \<or> contains (entry_name ?e) ''chat''
              \<or> contains (entry_name ?e) ''Chat''
           then f_add f32_ops with_format (f_lit f32_ops 15) else with_format)
     = Some (1000 + 100 + 50 * 470 / 5120 + 25 + 15)"
    unfolding strstr_contains [symmetric] by code_simp
  from score_model_formula [of f32_ops ?e ?hw] rhs show ?thesis by (rule trans)
qed

text \<open>
  Single precision rounds where the headroom is not a float: with 1 MB needed of a budget
  of 3 MB (no parameters, no bonus) the score is \<open>8546987 / 8192 = 1043.3333740234375\<close>,
  not \<open>1010 + 100 / 3\<close>.
\<close>

lemma score_model_f32_rounds:
  "score_model f32_ops
     \<lparr> path = [], entry_name = [], file_size_mb = 0, est_ram_mb = 1, n_params_est = 0,
       fits_in_ram = True, score = 0 \<rparr>
     \<lparr> ram_total_mb = 0, ram_available_mb = 0, model_budget_mb = 3 \<rparr>
   = Some (8546987 / 8192)"
  by code_simp

text \<open>
  The claim as stated fails on a name with a capital \<open>Instruct\<close>: the code matches
  \<open>nstruct\<close> and adds 15, the claim's list does not match. The headroom is 0 here, so
  no operation rounds: the code returns 1100 where the claim's rule gives 1085.
\<close>

theorem score_model_instruct_counterexample:
  "score_model f32_ops
     \<lparr> path = ''models/Falcon3-7B-Instruct-1.58bit.gguf'',
       entry_name = ''Falcon3-7B-Instruct-1.58bit'',
       file_size_mb = 1000, est_ram_mb = 1400, n_params_est = 2995931400,
       fits_in_ram = True, score = 0 \<rparr>
     \<lparr> ram_total_mb = 4096, ram_available_mb = 1900, model_budget_mb = 1400 \<rparr>
   = Some 1100 \<and>
   spec_score
     \<lparr> path = ''models/Falcon3-7B-Instruct-1.58bit.gguf'',
       entry_name = ''Falcon3-7B-Instruct-1.58bit'',
       file_size_mb = 1000, est_ram_mb = 1400, n_params_est = 2995931400,
       fits_in_ram = True, score = 0 \<rparr>
     \<lparr> ram_total_mb = 4096, ram_available_mb = 1900, model_budget_mb = 1400 \<rparr>
   = 1085 \<and>
   score_model f32_ops
     \<lparr> path = ''models/Falcon3-7B-Instruct-1.58bit.gguf'',
       entry_name = ''Falcon3-7B-Instruct-1.58bit'',
       file_size_mb = 1000, est_ram_mb = 1400, n_params_est = 2995931400,
       fits_in_ram = True, score = 0 \<rparr>
     \<lparr> ram_total_mb = 4096, ram_available_mb = 1900, model_budget_mb = 1400 \<rparr>
   \<noteq> Some (spec_score
     \<lparr> path = ''models/Falcon3-7B-Instruct-1.58bit.gguf'',
       entry_name = ''Falcon3-7B-Instruct-1.58bit'',
       file_size_mb = 1000, est_ram_mb = 1400, n_params_est = 2995931400,
       fits_in_ram = True, score = 0 \<rparr>
     \<lparr> ram_total_mb = 4096, ram_available_mb = 1900, model_budget_mb = 1400 \<rparr>)"
proof -
  let ?hw = "\<lparr> ram_total_mb = 4096, ram_available_mb = 1900, model_budget_mb = 1400 \<rparr>"
  let ?e = "\<lparr> path = ''models/Falcon3-7B-Instruct-1.58bit.gguf'',
       entry_name = ''Falcon3-7B-Instruct-1.58bit'',
       file_size_mb = 1000, est_ram_mb = 1400, n_params_est = 2995931400,
       fits_in_ram = True, score = 0 \<rparr>"
  have a: "score_model f32_ops ?e ?hw = Some 1100"
    by code_simp
  have b: "spec_score ?e ?hw = 1085"
    by (simp add: spec_score_def quality_tier_def strstr_contains [symmetric])
  show ?thesis unfolding a b by simp
qed

section \<open>Tool registry: lookup and registration\<close>

lemma find_tool_Some:
  "find_tool reg nm i = Some k \<Longrightarrow>
     i \<le> k \<and> k < count reg \<and> name (tools reg ! nat k) = Some nm"
proof (induction reg nm i rule: find_tool.induct)
  case (1 reg nm i)
  show ?case
  proof (cases "i < count reg")
    case False
    with "1.prems" show ?thesis by (simp add: find_tool.simps)
  next
    case True
    show ?thesis
    proof (cases "name (tools reg ! nat i) = Some nm")
      case yes: True
      with True "1.prems" show ?thesis by (simp add: find_tool.simps [of reg nm i])
    next
      case no: False
      with True "1.prems" have "find_tool reg nm (i + 1) = Some k"
        by (simp add: find_tool.simps [of reg nm i])
      from "1.IH" [OF True no this] show ?thesis by simp
    qed
  qed
qed

lemma find_tool_None_iff:
  "find_tool reg nm i = None \<longleftrightarrow>
     (\<forall>k. i \<le> k \<and> k < count reg \<longrightarrow> name (tools reg ! nat k) \<noteq> Some nm)"
proof (induction reg nm i rule: find_tool.induct)
  case (1 reg nm i)
  show ?case
  proof (cases "i < count reg")
    case False
    then have l: "find_tool reg nm i = None" by (simp add: find_tool.simps [of reg nm i])
    have r: "\<forall>k. i \<le> k \<and> k < count reg \<longrightarrow> name (tools reg ! nat k) \<noteq> Some nm"
    proof (intro allI impI)
      fix k assume "i \<le> k \<and> k < count reg"
      with False have False by linarith
      then show "name (tools reg ! nat k) \<noteq> Some nm" by simp
    qed
    from l r show ?thesis by (simp only: simp_thms)
  next
    case True
    show ?thesis
    proof (cases "name (tools reg ! nat i) = Some nm")
      case yes: True
      with True show ?thesis by (auto simp: find_tool.simps [of reg nm i])
    next
      case no: False
      have "(\<forall>k. i \<le> k \<and> k < count reg \<longrightarrow> name (tools reg ! nat k) \<noteq> Some nm)
          \<longleftrightarrow> (\<forall>k. i + 1 \<le> k \<and> k < count reg \<longrightarrow> name (tools reg ! nat k) \<noteq> Some nm)"
      proof -
        have "i \<le> k \<longleftrightarrow> k = i \<or> i + 1 \<le> k" for k by auto
        with no show ?thesis by auto
      qed
      with "1.IH" [OF True no] True no show ?thesis
        by (simp add: find_tool.simps [of reg nm i])
    qed
  qed
qed

lemma register_null_executor:
  "execute d = None \<Longrightarrow> neuronos_tool_register reg (Some d) = (- 1, reg)"
  by (simp add: neuronos_tool_register_def split: option.splits)

lemma register_full:
  "count r \<ge> 64 \<Longrightarrow> neuronos_tool_register (Some r) desc = (- 1, Some r)"
  by (simp add: neuronos_tool_register_def NEURONOS_MAX_TOOLS_def split: option.splits)

lemma register_duplicate:
  assumes "0 \<le> i" "i < count r" "name (tools r ! nat i) = Some nm" "name d = Some nm"
  shows "neuronos_tool_register (Some r) (Some d) = (- 1, Some r)"
proof -
  have "find_tool r nm 0 \<noteq> None" using assms(1-3) by (auto simp: find_tool_None_iff)
  then show ?thesis using assms(4)
    by (auto simp: neuronos_tool_register_def split: option.splits)
qed

lemma register_fresh:
  assumes "name d = Some nm" "execute d = Some f" "count r < 64" "find_tool r nm 0 = None"
  shows "neuronos_tool_register (Some r) (Some d) =
     (0, Some (r\<lparr> tools := (tools r)[nat (count r) := d], count := count r + 1 \<rparr>))"
  using assms by (simp add: neuronos_tool_register_def NEURONOS_MAX_TOOLS_def)

lemma register_cases:
  "neuronos_tool_register (Some r) desc = (- 1, Some r) \<or>
   (\<exists>d nm f. desc = Some d \<and> name d = Some nm \<and> execute d = Some f \<and> count r < 64 \<and>
      find_tool r nm 0 = None \<and>
      neuronos_tool_register (Some r) desc =
        (0, Some (r\<lparr> tools := (tools r)[nat (count r) := d], count := count r + 1 \<rparr>)))"
  by (auto simp: neuronos_tool_register_def NEURONOS_MAX_TOOLS_def split: option.splits)

lemma execute_found:
  assumes "find_tool r nm 0 = Some i" and "execute (tools r ! nat i) = Some f"
  shows "neuronos_tool_execute (Some r) (Some nm) args =
     Some (f (case args of Some a \<Rightarrow> a | None \<Rightarrow> ''{}'') (user_data (tools r ! nat i)),
           [\<lparr> call_index = i, call_args = (case args of Some a \<Rightarrow> a | None \<Rightarrow> ''{}''),
               call_user_data = user_data (tools r ! nat i) \<rparr>])"
  using assms by (simp add: neuronos_tool_execute_def Let_def)

lemma execute_not_found:
  assumes "find_tool r nm 0 = None"
  shows "neuronos_tool_execute (Some r) (Some nm) args =
     Some (\<lparr> success = False, output = None, error = Some ''Tool not found'' \<rparr>, [])"
  using assms by (simp add: neuronos_tool_execute_def)

lemma create_True:
  "neuronos_tool_registry_create True = Some \<lparr> tools = replicate 64 zero_desc, count = 0 \<rparr>"
  by (simp add: neuronos_tool_registry_create_def NEURONOS_MAX_TOOLS_def)

lemma find_tool_empty: "count r \<le> i \<Longrightarrow> find_tool r nm i = None"
  by (simp add: find_tool.simps [of r nm i])

lemma registry_wf_create:
  "registry_wf \<lparr> tools = replicate 64 zero_desc, count = 0 \<rparr>"
  by (simp add: registry_wf_def)

lemma registry_wf_append:
  assumes wf: "registry_wf r"
    and d: "name d = Some nm" "execute d = Some f"
    and c: "count r < 64"
    and fresh: "find_tool r nm 0 = None"
  shows "registry_wf (r\<lparr> tools := (tools r)[nat (count r) := d], count := count r + 1 \<rparr>)"
proof -
  define n where "n = nat (count r)"
  let ?ts = "(tools r)[n := d]"
  have c0: "0 \<le> count r" using wf by (simp add: registry_wf_def)
  have n: "n < 64" "count r = int n" "nat (count r + 1) = Suc n"
    using c0 c unfolding n_def by linarith+
  have len: "length (tools r) = 64" using wf by (simp add: registry_wf_def)
  have old: "?ts ! i = tools r ! i" if "i < n" for i using that by simp
  have new: "?ts ! n = d" using n(1) len by simp
  have names: "map (\<lambda>i. name (?ts ! i)) [0..<Suc n] = map (\<lambda>i. name (tools r ! i)) [0..<n] @ [Some nm]"
    using old new d(1) by simp
  have notin: "Some nm \<notin> set (map (\<lambda>i. name (tools r ! i)) [0..<n])"
  proof
    assume "Some nm \<in> set (map (\<lambda>i. name (tools r ! i)) [0..<n])"
    then obtain i where i: "i < n" "name (tools r ! i) = Some nm" by auto
    from fresh have "\<forall>k. 0 \<le> k \<and> k < count r \<longrightarrow> name (tools r ! nat k) \<noteq> Some nm"
      by (simp only: find_tool_None_iff)
    then have "0 \<le> int i \<and> int i < count r \<longrightarrow> name (tools r ! nat (int i)) \<noteq> Some nm"
      by (rule spec)
    moreover have "0 \<le> int i \<and> int i < count r" using i(1) n(2) by simp
    ultimately have "name (tools r ! nat (int i)) \<noteq> Some nm" by (rule mp)
    with i(2) show False by simp
  qed
  have dist: "distinct (map (\<lambda>i. name (tools r ! i)) [0..<n])"
    using wf by (simp add: registry_wf_def n_def)
  have all: "list_all (\<lambda>i. name (tools r ! i) \<noteq> None \<and> execute (tools r ! i) \<noteq> None) [0..<n]"
    using wf by (simp add: registry_wf_def n_def)
  have all': "list_all (\<lambda>i. name (?ts ! i) \<noteq> None \<and> execute (?ts ! i) \<noteq> None) [0..<Suc n]"
    using all old new d by (simp add: list_all_iff)
  have dist': "distinct (map (\<lambda>i. name (?ts ! i)) [0..<Suc n])"
    unfolding names using dist notin by simp
  show ?thesis
    unfolding registry_wf_def using n len dist' all' wf
    by (simp add: n_def [symmetric] registry_wf_def)
qed

lemma registry_wf_register:
  assumes "registry_wf r"
  shows "\<exists>r'. snd (neuronos_tool_register (Some r) desc) = Some r' \<and> registry_wf r'"
  using register_cases [of r desc] assms by (auto intro: registry_wf_append)

lemma registry_wf_ok: "registry_wf r \<Longrightarrow> registry_ok r"
  by (simp add: registry_wf_def registry_ok_def)

lemma registry_ok_append:
  assumes ok: "registry_ok r"
    and d: "name d = Some nm" "execute d = Some f"
    and c: "count r < 64"
  shows "registry_ok (r\<lparr> tools := (tools r)[nat (count r) := d], count := count r + 1 \<rparr>)"
proof -
  define n where "n = nat (count r)"
  let ?ts = "(tools r)[n := d]"
  have c0: "0 \<le> count r" using ok by (simp add: registry_ok_def)
  have n: "n < 64" "count r = int n" "nat (count r + 1) = Suc n"
    using c0 c unfolding n_def by linarith+
  have len: "length (tools r) = 64" using ok by (simp add: registry_ok_def)
  have old: "?ts ! i = tools r ! i" if "i < n" for i using that by simp
  have new: "?ts ! n = d" using n(1) len by simp
  have all: "list_all (\<lambda>i. name (tools r ! i) \<noteq> None \<and> execute (tools r ! i) \<noteq> None) [0..<n]"
    using ok by (simp add: registry_ok_def n_def)
  have all': "list_all (\<lambda>i. name (?ts ! i) \<noteq> None \<and> execute (?ts ! i) \<noteq> None) [0..<Suc n]"
    using all old new d by (simp add: list_all_iff)
  show ?thesis
    unfolding registry_ok_def using n len all'
    by (simp add: n_def [symmetric])
qed

lemma registry_ok_register:
  assumes "registry_ok r"
  shows "\<exists>r'. snd (neuronos_tool_register (Some r) desc) = Some r' \<and> registry_ok r'"
  using register_cases [of r desc] assms by (auto intro: registry_ok_append)

lemma registry_ok_overwrite:
  assumes "registry_ok r"
  shows "\<exists>r'. run_step (Some r) (Overwrite_name i s) = Some r' \<and> registry_ok r'"
proof (cases "int i < count r")
  case False
  then show ?thesis using assms by simp
next
  case True
  let ?ts = "(tools r)[i := (tools r ! i)\<lparr> name := Some s \<rparr>]"
  have len: "length (tools r) = 64" using assms by (simp add: registry_ok_def)
  have i: "i < 64" using True assms by (simp add: registry_ok_def)
  have nth: "name (?ts ! k) \<noteq> None \<and> execute (?ts ! k) \<noteq> None"
    if "name (tools r ! k) \<noteq> None \<and> execute (tools r ! k) \<noteq> None" and "k < 64" for k
    using that len i by (cases "k = i") simp_all
  have "list_all (\<lambda>k. name (?ts ! k) \<noteq> None \<and> execute (?ts ! k) \<noteq> None) [0..<nat (count r)]"
    unfolding list_all_iff
  proof
    fix k assume "k \<in> set [0..<nat (count r)]"
    then have k: "k < nat (count r)" by simp
    have a: "name (tools r ! k) \<noteq> None \<and> execute (tools r ! k) \<noteq> None"
      using assms k by (simp add: registry_ok_def list_all_iff)
    have "count r \<le> 64" using assms by (simp add: registry_ok_def)
    then have b: "k < 64" using k by linarith
    from a b show "name (?ts ! k) \<noteq> None \<and> execute (?ts ! k) \<noteq> None" by (rule nth)
  qed
  then have "registry_ok (r\<lparr> tools := ?ts \<rparr>)"
    using assms by (simp add: registry_ok_def)
  then show ?thesis using True by simp
qed

lemma registry_ok_run_step:
  assumes "registry_ok r"
  shows "\<exists>r'. run_step (Some r) step = Some r' \<and> registry_ok r'"
proof (cases step)
  case (Register desc)
  then show ?thesis using registry_ok_register [OF assms, of desc] by simp
next
  case (Overwrite_name i s)
  then show ?thesis using registry_ok_overwrite [OF assms, of i s] by simp
qed

lemma registry_ok_run_steps:
  assumes "registry_ok r"
  shows "\<exists>r'. run_steps (Some r) steps = Some r' \<and> registry_ok r'"
  using assms
proof (induction steps arbitrary: r)
  case Nil
  then show ?case by (simp add: run_steps_def)
next
  case (Cons step steps)
  from registry_ok_run_step [OF Cons.prems, of step]
  obtain r1 where r1: "run_step (Some r) step = Some r1" "registry_ok r1" by blast
  from Cons.IH [OF r1(2)] r1(1) show ?case by (simp add: run_steps_def)
qed

lemma registry_wf_run_step:
  assumes "registry_wf r" and "\<not> writes_registered_name (Some r) step"
  shows "\<exists>r1. run_step (Some r) step = Some r1 \<and> registry_wf r1"
proof (cases step)
  case (Register desc)
  then show ?thesis using registry_wf_register [OF assms(1), of desc] by simp
next
  case (Overwrite_name i s)
  then show ?thesis using assms by simp
qed

lemma registry_wf_run_steps:
  assumes "registry_wf r" and "names_untouched (Some r) steps"
    and "run_steps (Some r) steps = Some r'"
  shows "registry_wf r'"
  using assms
proof (induction steps arbitrary: r)
  case Nil
  then show ?case by (simp add: run_steps_def)
next
  case (Cons step steps)
  from Cons.prems(2) have u: "\<not> writes_registered_name (Some r) step"
      "names_untouched (run_step (Some r) step) steps"
    by simp_all
  from registry_wf_run_step [OF Cons.prems(1) u(1)]
  obtain r1 where r1: "run_step (Some r) step = Some r1" "registry_wf r1" by blast
  have run: "run_steps (Some r1) steps = Some r'"
    using Cons.prems(3) r1(1) by (simp add: run_steps_def)
  have "names_untouched (Some r1) steps" using u(2) r1(1) by simp
  with r1(2) show ?case using run by (rule Cons.IH)
qed

lemma tool_name_None_iff:
  assumes "registry_ok r"
  shows "neuronos_tool_name (Some r) index = None \<longleftrightarrow> (index < 0 \<or> count r \<le> index)"
proof (cases "index < 0 \<or> count r \<le> index")
  case True
  then show ?thesis by (auto simp: neuronos_tool_name_def)
next
  case False
  then have "nat index < nat (count r)" by simp
  then have "name (tools r ! nat index) \<noteq> None"
    using assms by (simp add: registry_ok_def list_all_iff)
  with False show ?thesis by (simp add: neuronos_tool_name_def)
qed

lemma tool_names_distinct:
  assumes "registry_wf r"
  shows "distinct (map (\<lambda>i. neuronos_tool_name (Some r) (int i)) [0..<nat (count r)])"
proof -
  have eq: "map (\<lambda>i. neuronos_tool_name (Some r) (int i)) [0..<nat (count r)]
      = map (\<lambda>i. name (tools r ! i)) [0..<nat (count r)]"
    by (rule map_cong) (auto simp: neuronos_tool_name_def)
  have "distinct (map (\<lambda>i. name (tools r ! i)) [0..<nat (count r)])"
    using assms by (simp add: registry_wf_def)
  then show ?thesis by (simp only: eq)
qed

lemma register_counting_fresh:
  assumes "name d = Some nm" "execute d = Some f" "count r < 64" "find_tool r nm 0 = None"
  shows "register_counting d (k, Some r) =
     (k + 1, Some (r\<lparr> tools := (tools r)[nat (count r) := d], count := count r + 1 \<rparr>))"
  using register_fresh [OF assms] by (simp add: register_counting_def)

lemma find_tool_appended:
  assumes "0 \<le> count r" "count r < 64" "length (tools r) = 64" "name d = Some dn"
  shows "find_tool (r\<lparr> tools := (tools r)[nat (count r) := d], count := count r + 1 \<rparr>) nm 0 = None
     \<longleftrightarrow> find_tool r nm 0 = None \<and> nm \<noteq> dn"
proof -
  let ?ts = "(tools r)[nat (count r) := d]"
  have n: "nat (count r) < length (tools r)" using assms(1-3) by linarith
  have old: "?ts ! nat k = tools r ! nat k" if "0 \<le> k" "k < count r" for k
  proof -
    have "nat k \<noteq> nat (count r)" using that by linarith
    then show ?thesis by simp
  qed
  have new: "?ts ! nat (count r) = d" using n by simp
  have "(\<forall>k. 0 \<le> k \<and> k < count r + 1 \<longrightarrow> name (?ts ! nat k) \<noteq> Some nm)
      \<longleftrightarrow> (\<forall>k. 0 \<le> k \<and> k < count r \<longrightarrow> name (tools r ! nat k) \<noteq> Some nm) \<and> nm \<noteq> dn"
    (is "?L \<longleftrightarrow> ?R1 \<and> ?R2")
  proof (intro iffI conjI)
    assume l: ?L
    show ?R1
    proof (intro allI impI)
      fix k assume k: "0 \<le> k \<and> k < count r"
      then have "0 \<le> k \<and> k < count r + 1" by simp
      with l have "name (?ts ! nat k) \<noteq> Some nm" by blast
      moreover from k have "?ts ! nat k = tools r ! nat k" by (simp add: old)
      ultimately show "name (tools r ! nat k) \<noteq> Some nm" by simp
    qed
    from l assms(1) have "name (?ts ! nat (count r)) \<noteq> Some nm" by simp
    then show ?R2 using new assms(4) by auto
  next
    assume r: "?R1 \<and> ?R2"
    show ?L
    proof (intro allI impI)
      fix k assume k: "0 \<le> k \<and> k < count r + 1"
      show "name (?ts ! nat k) \<noteq> Some nm"
      proof (cases "k = count r")
        case True
        then show ?thesis using new assms(4) r by auto
      next
        case False
        with k have k': "0 \<le> k" "k < count r" by simp_all
        with r have "name (tools r ! nat k) \<noteq> Some nm" by blast
        with old [OF k'] show ?thesis by simp
      qed
    qed
  qed
  then show ?thesis by (simp add: find_tool_None_iff)
qed

lemma register_counting_names:
  assumes "registry_wf r" "count r < 64" "name d = Some dn" "execute d = Some f"
    and "snd st = Some r"
  shows "\<exists>r'. snd (register_counting d st) = Some r' \<and> registry_wf r' \<and>
           count r' \<le> count r + 1 \<and>
           (\<forall>nm. find_tool r' nm 0 = None \<longleftrightarrow> find_tool r nm 0 = None \<and> nm \<noteq> dn)"
proof (cases "find_tool r dn 0")
  case None
  let ?r' = "r\<lparr> tools := (tools r)[nat (count r) := d], count := count r + 1 \<rparr>"
  have reg: "neuronos_tool_register (Some r) (Some d) = (0, Some ?r')"
    using assms(3,4,2) None by (rule register_fresh)
  have wf: "registry_wf ?r'" using assms(1,3,4,2) None by (rule registry_wf_append)
  have w: "0 \<le> count r" "length (tools r) = 64" using assms(1) by (simp_all add: registry_wf_def)
  have "find_tool ?r' nm 0 = None \<longleftrightarrow> find_tool r nm 0 = None \<and> nm \<noteq> dn" for nm
    using w(1) assms(2) w(2) assms(3) by (rule find_tool_appended)
  with reg wf show ?thesis using assms(5) by (simp add: register_counting_def)
next
  case (Some i)
  then have reg: "neuronos_tool_register (Some r) (Some d) = (- 1, Some r)"
    using assms(3,4) by (simp add: neuronos_tool_register_def)
  have "find_tool r nm 0 = None \<longleftrightarrow> find_tool r nm 0 = None \<and> nm \<noteq> dn" for nm
    using Some by auto
  with reg assms(1,5) show ?thesis by (simp add: register_counting_def)
qed

lemma desc_names:
  "name (desc_shell c bt) = Some ''shell''" "execute (desc_shell c bt) = Some (tool_shell bt)"
  "name (desc_read c bt) = Some ''read_file''" "execute (desc_read c bt) = Some (tool_read_file bt)"
  "name (desc_write c bt) = Some ''write_file''" "execute (desc_write c bt) = Some (tool_write_file bt)"
  "name (desc_calc bt) = Some ''calculate''" "execute (desc_calc bt) = Some (tool_calculate bt)"
  by (simp_all add: desc_shell_def desc_read_def desc_write_def desc_calc_def)

lemma defaults_names:
  "\<exists>r'. snd (neuronos_tool_register_defaults cap_shell cap_filesystem bt
             (neuronos_tool_registry_create True) allowed_caps) = Some r' \<and>
     registry_wf r' \<and>
     (\<forall>nm. find_tool r' nm 0 \<noteq> None \<longleftrightarrow>
       (nm = ''shell'' \<and> allowed_caps AND cap_shell \<noteq> 0 \<or>
        (nm = ''read_file'' \<or> nm = ''write_file'') \<and> allowed_caps AND cap_filesystem \<noteq> 0 \<or>
        nm = ''calculate''))"
proof -
  define r0 where "r0 = \<lparr> tools = replicate 64 zero_desc, count = 0 \<rparr>"
  define st0 :: "int \<times> neuronos_tool_reg option" where "st0 = (0, Some r0)"
  define st1 where "st1 = (if allowed_caps AND cap_shell \<noteq> 0
                     then register_counting (desc_shell cap_shell bt) st0 else st0)"
  define st1' where "st1' = register_counting (desc_read cap_filesystem bt) st1"
  define st2 where "st2 = (if allowed_caps AND cap_filesystem \<noteq> 0
                     then register_counting (desc_write cap_filesystem bt) st1'
                     else st1)"
  have res: "neuronos_tool_register_defaults cap_shell cap_filesystem bt
             (neuronos_tool_registry_create True) allowed_caps = register_counting (desc_calc bt) st2"
    by (simp add: neuronos_tool_register_defaults_def create_True Let_def st2_def st1'_def st1_def
        st0_def r0_def)
  have wf0: "registry_wf r0" unfolding r0_def by (rule registry_wf_create)
  have c0: "count r0 = 0" by (simp add: r0_def)
  have f0: "find_tool r0 nm 0 = None" for nm by (simp add: find_tool_empty c0)
  have s0: "snd st0 = Some r0" by (simp add: st0_def)
  obtain r1 where r1: "snd st1 = Some r1" "registry_wf r1" "count r1 \<le> 1"
    "\<And>nm. find_tool r1 nm 0 = None \<longleftrightarrow> \<not> (nm = ''shell'' \<and> allowed_caps AND cap_shell \<noteq> 0)"
  proof (cases "allowed_caps AND cap_shell \<noteq> 0")
    case True
    from register_counting_names [OF wf0 _ desc_names(1) [of cap_shell bt] desc_names(2) [of cap_shell bt] s0]
    obtain r' where "snd (register_counting (desc_shell cap_shell bt) st0) = Some r'" "registry_wf r'"
      "count r' \<le> count r0 + 1"
      "\<forall>nm. find_tool r' nm 0 = None \<longleftrightarrow> find_tool r0 nm 0 = None \<and> nm \<noteq> ''shell''"
      using c0 by auto
    with True that [of r'] show ?thesis by (simp add: st1_def f0 c0)
  next
    case False
    with that [of r0] wf0 c0 f0 s0 show ?thesis by (simp add: st1_def)
  qed
  obtain r2 where r2: "snd st2 = Some r2" "registry_wf r2" "count r2 \<le> 3"
    "\<And>nm. find_tool r2 nm 0 = None \<longleftrightarrow> find_tool r1 nm 0 = None \<and>
        \<not> ((nm = ''read_file'' \<or> nm = ''write_file'') \<and> allowed_caps AND cap_filesystem \<noteq> 0)"
  proof (cases "allowed_caps AND cap_filesystem \<noteq> 0")
    case True
    have c1: "count r1 < 64" using r1(3) by simp
    from register_counting_names [OF r1(2) c1 desc_names(3) [of cap_filesystem bt] desc_names(4) [of cap_filesystem bt] r1(1)]
    obtain ra where ra: "snd st1' = Some ra" "registry_wf ra"
      "count ra \<le> count r1 + 1"
      "\<forall>nm. find_tool ra nm 0 = None \<longleftrightarrow> find_tool r1 nm 0 = None \<and> nm \<noteq> ''read_file''"
      unfolding st1'_def by auto
    have ca: "count ra < 64" using ra(3) r1(3) by simp
    from register_counting_names [OF ra(2) ca desc_names(5) [of cap_filesystem bt] desc_names(6) [of cap_filesystem bt] ra(1)]
    obtain rb where rb: "snd (register_counting (desc_write cap_filesystem bt) st1') = Some rb"
      "registry_wf rb" "count rb \<le> count ra + 1"
      "\<forall>nm. find_tool rb nm 0 = None \<longleftrightarrow> find_tool ra nm 0 = None \<and> nm \<noteq> ''write_file''"
      by auto
    have "count rb \<le> 3" using rb(3) ra(3) r1(3) by simp
    with True that [of rb] rb ra(4) show ?thesis by (auto simp: st2_def)
  next
    case False
    have "count r1 \<le> 3" using r1(3) by simp
    with False that [of r1] r1 show ?thesis by (simp add: st2_def)
  qed
  have c2: "count r2 < 64" using r2(3) by simp
  from register_counting_names [OF r2(2) c2 desc_names(7) [of bt] desc_names(8) [of bt] r2(1)]
  obtain r3 where r3: "snd (register_counting (desc_calc bt) st2) = Some r3" "registry_wf r3"
      "\<forall>nm. find_tool r3 nm 0 = None \<longleftrightarrow> find_tool r2 nm 0 = None \<and> nm \<noteq> ''calculate''"
    by auto
  have names: "\<forall>nm. find_tool r3 nm 0 \<noteq> None \<longleftrightarrow>
       (nm = ''shell'' \<and> allowed_caps AND cap_shell \<noteq> 0 \<or>
        (nm = ''read_file'' \<or> nm = ''write_file'') \<and> allowed_caps AND cap_filesystem \<noteq> 0 \<or>
        nm = ''calculate'')"
  proof
    fix nm
    define A where "A \<longleftrightarrow> nm = ''shell'' \<and> allowed_caps AND cap_shell \<noteq> 0"
    define B where "B \<longleftrightarrow> (nm = ''read_file'' \<or> nm = ''write_file'') \<and> allowed_caps AND cap_filesystem \<noteq> 0"
    define C where "C \<longleftrightarrow> nm = ''calculate''"
    have 1: "find_tool r1 nm 0 = None \<longleftrightarrow> \<not> A" unfolding A_def by (rule r1(4))
    have 2: "find_tool r2 nm 0 = None \<longleftrightarrow> find_tool r1 nm 0 = None \<and> \<not> B" unfolding B_def by (rule r2(4))
    have 3: "find_tool r3 nm 0 = None \<longleftrightarrow> find_tool r2 nm 0 = None \<and> \<not> C"
      unfolding C_def using r3(3) by (rule spec)
    have "find_tool r3 nm 0 \<noteq> None \<longleftrightarrow> A \<or> B \<or> C" by (simp add: 1 2 3)
    then show "find_tool r3 nm 0 \<noteq> None \<longleftrightarrow>
       (nm = ''shell'' \<and> allowed_caps AND cap_shell \<noteq> 0 \<or>
        (nm = ''read_file'' \<or> nm = ''write_file'') \<and> allowed_caps AND cap_filesystem \<noteq> 0 \<or>
        nm = ''calculate'')"
      unfolding A_def B_def C_def .
  qed
  show ?thesis unfolding res using r3(1,2) names by blast
qed

lemma example_registry_registered:
  "snd (neuronos_tool_register (neuronos_tool_registry_create True)
          (Some (example_desc ''shell'' 1)))
     = Some example_registry"
  by (simp add: create_True neuronos_tool_register_def example_desc_def
      NEURONOS_MAX_TOOLS_def find_tool_empty example_registry_def)

lemma example_registry_find: "find_tool example_registry ''shell'' 0 = Some 0"
  by (simp add: find_tool.simps [of _ _ 0] example_registry_def example_desc_def)

lemma example_registry_tool:
  "tools example_registry ! 0 = example_desc ''shell'' 1"
  by (simp add: example_registry_def)

text \<open>
  Claim C6. For every registry state and every descriptor whose name equals the name of an
  already registered tool, register returns an error and leaves the registry unchanged
  (same count, same entries in the same order); it also fails without changing anything
  on a null executor, and when the registry already holds its 64 tools.
\<close>

theorem register_rejects:
  "((\<exists>i. 0 \<le> i \<and> i < count r \<and> name (tools r ! nat i) = name d \<and> name d \<noteq> None) \<longrightarrow>
      neuronos_tool_register (Some r) (Some d) = (- 1, Some r)) \<and>
   (execute d = None \<longrightarrow> neuronos_tool_register (Some r) (Some d) = (- 1, Some r)) \<and>
   (count r \<ge> 64 \<longrightarrow> neuronos_tool_register (Some r) (Some d) = (- 1, Some r))"
  by (auto simp: register_null_executor register_full intro: register_duplicate)

theorem register_rejects_witness:
  "(\<exists>i. 0 \<le> i \<and> i < count example_registry \<and>
        name (tools example_registry ! nat i) = name (example_desc ''shell'' 0) \<and>
        name (example_desc ''shell'' 0) \<noteq> None) \<and>
   neuronos_tool_register (Some example_registry) (Some (example_desc ''shell'' 0)) =
     (- 1, Some example_registry) \<and>
   execute (zero_desc\<lparr> name := Some ''nothing'' \<rparr>) = None \<and>
   neuronos_tool_register (Some example_registry) (Some (zero_desc\<lparr> name := Some ''nothing'' \<rparr>)) =
     (- 1, Some example_registry) \<and>
   count full_registry \<ge> 64 \<and>
   neuronos_tool_register (Some full_registry) (Some (example_desc ''one_more'' 0)) =
     (- 1, Some full_registry)"
proof -
  have a: "\<exists>i. 0 \<le> i \<and> i < count example_registry \<and>
        name (tools example_registry ! nat i) = name (example_desc ''shell'' 0) \<and>
        name (example_desc ''shell'' 0) \<noteq> None"
    by (rule exI [of _ 0]) (simp add: example_registry_def example_desc_def)
  have b: "execute (zero_desc\<lparr> name := Some ''nothing'' \<rparr>) = None"
    by (simp add: zero_desc_def)
  have c: "count full_registry \<ge> 64" by (simp add: full_registry_def)
  from register_rejects [of example_registry "example_desc ''shell'' 0"] a
  have d: "neuronos_tool_register (Some example_registry) (Some (example_desc ''shell'' 0)) =
     (- 1, Some example_registry)" by blast
  from register_rejects [of example_registry "zero_desc\<lparr> name := Some ''nothing'' \<rparr>"] b
  have e: "neuronos_tool_register (Some example_registry)
       (Some (zero_desc\<lparr> name := Some ''nothing'' \<rparr>)) = (- 1, Some example_registry)" by blast
  from register_rejects [of full_registry "example_desc ''one_more'' 0"] c
  have f: "neuronos_tool_register (Some full_registry) (Some (example_desc ''one_more'' 0)) =
     (- 1, Some full_registry)" by blast
  from a b c d e f show ?thesis by blast
qed

section \<open>Tool registry: execution\<close>

lemma execute_runs_iff_found:
  assumes "registry_wf r"
  shows "(\<exists>res c. neuronos_tool_execute (Some r) (Some nm) args = Some (res, [c]))
     \<longleftrightarrow> find_tool r nm 0 \<noteq> None"
proof (cases "find_tool r nm 0")
  case None
  then show ?thesis by (simp add: execute_not_found)
next
  case (Some i)
  from find_tool_Some [OF Some] have i: "0 \<le> i" "i < count r" by simp_all
  then have "nat i < nat (count r)" by linarith
  then have "execute (tools r ! nat i) \<noteq> None"
    using assms by (simp add: registry_wf_def list_all_iff)
  then obtain f where "execute (tools r ! nat i) = Some f" by auto
  from execute_found [OF Some this, of args] Some show ?thesis by simp
qed

text \<open>
  Claim C9. Tool execution is total at the public interface: for a null registry or a null
  tool name, execute returns \<open>{success = false, error = "Invalid arguments"}\<close> and calls
  no executor; when the argument string is null, the executor of the tool found is called
  with the string \<open>{}\<close>.
\<close>

theorem execute_total_at_interface:
  "neuronos_tool_execute None tool_name args =
     Some (\<lparr> success = False, output = None, error = Some ''Invalid arguments'' \<rparr>, []) \<and>
   neuronos_tool_execute reg None args =
     Some (\<lparr> success = False, output = None, error = Some ''Invalid arguments'' \<rparr>, []) \<and>
   (find_tool r nm 0 = Some i \<and> execute (tools r ! nat i) = Some f \<longrightarrow>
      neuronos_tool_execute (Some r) (Some nm) None =
        Some (f ''{}'' (user_data (tools r ! nat i)),
              [\<lparr> call_index = i, call_args = ''{}'',
                  call_user_data = user_data (tools r ! nat i) \<rparr>]))"
proof (intro conjI impI)
  show "neuronos_tool_execute None tool_name args =
     Some (\<lparr> success = False, output = None, error = Some ''Invalid arguments'' \<rparr>, [])"
    by (simp add: neuronos_tool_execute_def)
  show "neuronos_tool_execute reg None args =
     Some (\<lparr> success = False, output = None, error = Some ''Invalid arguments'' \<rparr>, [])"
    by (simp add: neuronos_tool_execute_def split: option.splits)
  assume "find_tool r nm 0 = Some i \<and> execute (tools r ! nat i) = Some f"
  then show "neuronos_tool_execute (Some r) (Some nm) None =
        Some (f ''{}'' (user_data (tools r ! nat i)),
              [\<lparr> call_index = i, call_args = ''{}'',
                  call_user_data = user_data (tools r ! nat i) \<rparr>])"
    using execute_found [of r nm i f None] by simp
qed

theorem execute_total_at_interface_witness:
  "find_tool example_registry ''shell'' 0 = Some 0 \<and>
   execute (tools example_registry ! nat 0) = Some echo_tool \<and>
   neuronos_tool_execute (Some example_registry) (Some ''shell'') None =
     Some (echo_tool ''{}'' (user_data (tools example_registry ! nat 0)),
           [\<lparr> call_index = 0, call_args = ''{}'',
               call_user_data = user_data (tools example_registry ! nat 0) \<rparr>]) \<and>
   neuronos_tool_execute None (Some ''shell'') None =
     Some (\<lparr> success = False, output = None, error = Some ''Invalid arguments'' \<rparr>, []) \<and>
   neuronos_tool_execute (Some example_registry) None (Some ''{}'') =
     Some (\<lparr> success = False, output = None, error = Some ''Invalid arguments'' \<rparr>, [])"
proof -
  have a: "find_tool example_registry ''shell'' 0 = Some 0" by (rule example_registry_find)
  have b: "execute (tools example_registry ! nat 0) = Some echo_tool"
    by (simp add: example_registry_tool example_desc_def)
  from execute_total_at_interface
    [of "Some ''shell''" None "Some example_registry" example_registry "''shell''" 0 echo_tool] a b
  have "neuronos_tool_execute (Some example_registry) (Some ''shell'') None =
     Some (echo_tool ''{}'' (user_data (tools example_registry ! nat 0)),
           [\<lparr> call_index = 0, call_args = ''{}'',
               call_user_data = user_data (tools example_registry ! nat 0) \<rparr>])"
    and "neuronos_tool_execute None (Some ''shell'') None =
     Some (\<lparr> success = False, output = None, error = Some ''Invalid arguments'' \<rparr>, [])"
    by blast+
  moreover from execute_total_at_interface
    [of "Some ''shell''" "Some ''{}''" "Some example_registry" example_registry "''shell''" 0 echo_tool]
  have "neuronos_tool_execute (Some example_registry) None (Some ''{}'') =
     Some (\<lparr> success = False, output = None, error = Some ''Invalid arguments'' \<rparr>, [])"
    by blast
  ultimately show ?thesis using a b by blast
qed

text \<open>
  Claim C7, as the code has it. Capability gating is applied when the built-in tools are
  registered, not when a tool is executed: execute takes no granted mask and runs the
  executor of whatever registered tool it finds under the name, without looking at its
  required capabilities; on a freshly created registry, register_defaults with the mask
  \<open>allowed_caps\<close> registers \<open>shell\<close> exactly when \<open>allowed_caps & SHELL\<close> is not 0,
  \<open>read_file\<close> and \<open>write_file\<close> exactly when \<open>allowed_caps & FILESYSTEM\<close> is not
  0, and \<open>calculate\<close> always, so that afterwards executing a name runs an executor
  exactly for the tools so registered.
\<close>

theorem capability_gating_at_registration:
  "(find_tool r nm 0 = Some i \<and> execute (tools r ! nat i) = Some f \<longrightarrow>
      neuronos_tool_execute (Some r) (Some nm) args =
        Some (f (case args of Some a \<Rightarrow> a | None \<Rightarrow> ''{}'') (user_data (tools r ! nat i)),
              [\<lparr> call_index = i, call_args = (case args of Some a \<Rightarrow> a | None \<Rightarrow> ''{}''),
                  call_user_data = user_data (tools r ! nat i) \<rparr>])) \<and>
   ((\<exists>res c. neuronos_tool_execute
                (snd (neuronos_tool_register_defaults cap_shell cap_filesystem bt
                        (neuronos_tool_registry_create True) allowed_caps))
                (Some nm') args' = Some (res, [c])) \<longleftrightarrow>
      (nm' = ''shell'' \<and> allowed_caps AND cap_shell \<noteq> 0 \<or>
       (nm' = ''read_file'' \<or> nm' = ''write_file'') \<and> allowed_caps AND cap_filesystem \<noteq> 0 \<or>
       nm' = ''calculate''))"
proof (intro conjI impI)
  assume "find_tool r nm 0 = Some i \<and> execute (tools r ! nat i) = Some f"
  then show "neuronos_tool_execute (Some r) (Some nm) args =
        Some (f (case args of Some a \<Rightarrow> a | None \<Rightarrow> ''{}'') (user_data (tools r ! nat i)),
              [\<lparr> call_index = i, call_args = (case args of Some a \<Rightarrow> a | None \<Rightarrow> ''{}''),
                  call_user_data = user_data (tools r ! nat i) \<rparr>])"
    by (simp add: execute_found)
next
  from defaults_names [of cap_shell cap_filesystem bt allowed_caps]
  obtain r' where r': "snd (neuronos_tool_register_defaults cap_shell cap_filesystem bt
             (neuronos_tool_registry_create True) allowed_caps) = Some r'" "registry_wf r'"
     "\<forall>nm. find_tool r' nm 0 \<noteq> None \<longleftrightarrow>
       (nm = ''shell'' \<and> allowed_caps AND cap_shell \<noteq> 0 \<or>
        (nm = ''read_file'' \<or> nm = ''write_file'') \<and> allowed_caps AND cap_filesystem \<noteq> 0 \<or>
        nm = ''calculate'')"
    by blast
  from r'(3) have "find_tool r' nm' 0 \<noteq> None \<longleftrightarrow>
       (nm' = ''shell'' \<and> allowed_caps AND cap_shell \<noteq> 0 \<or>
        (nm' = ''read_file'' \<or> nm' = ''write_file'') \<and> allowed_caps AND cap_filesystem \<noteq> 0 \<or>
        nm' = ''calculate'')" by (rule spec)
  then show "(\<exists>res c. neuronos_tool_execute
                (snd (neuronos_tool_register_defaults cap_shell cap_filesystem bt
                        (neuronos_tool_registry_create True) allowed_caps))
                (Some nm') args' = Some (res, [c])) \<longleftrightarrow>
      (nm' = ''shell'' \<and> allowed_caps AND cap_shell \<noteq> 0 \<or>
       (nm' = ''read_file'' \<or> nm' = ''write_file'') \<and> allowed_caps AND cap_filesystem \<noteq> 0 \<or>
       nm' = ''calculate'')"
    unfolding r'(1) by (simp only: execute_runs_iff_found [OF r'(2)])
qed

theorem capability_gating_at_registration_witness:
  "find_tool example_registry ''shell'' 0 = Some 0 \<and>
   execute (tools example_registry ! nat 0) = Some echo_tool \<and>
   required_caps (tools example_registry ! nat 0) = 1 \<and>
   neuronos_tool_execute (Some example_registry) (Some ''shell'') (Some ''{}'') =
     Some (\<lparr> success = True, output = Some ''{}'', error = None \<rparr>,
           [\<lparr> call_index = 0, call_args = ''{}'', call_user_data = 0 \<rparr>]) \<and>
   (\<exists>res c. neuronos_tool_execute
       (snd (neuronos_tool_register_defaults 1 2 example_builtins
               (neuronos_tool_registry_create True) 2))
       (Some ''read_file'') None = Some (res, [c])) \<and>
   (\<nexists>res c. neuronos_tool_execute
       (snd (neuronos_tool_register_defaults 1 2 example_builtins
               (neuronos_tool_registry_create True) 2))
       (Some ''shell'') None = Some (res, [c]))"
proof -
  have a: "find_tool example_registry ''shell'' 0 = Some 0" by (rule example_registry_find)
  have b: "execute (tools example_registry ! nat 0) = Some echo_tool"
    by (simp add: example_registry_tool example_desc_def)
  have c: "required_caps (tools example_registry ! nat 0) = 1"
    by (simp add: example_registry_tool example_desc_def)
  have u: "user_data (tools example_registry ! nat 0) = 0"
    by (simp add: example_registry_tool example_desc_def)
  from capability_gating_at_registration
    [of example_registry "''shell''" 0 echo_tool "Some ''{}''" 1 2 example_builtins 2 "''read_file''" None]
  have d: "neuronos_tool_execute (Some example_registry) (Some ''shell'') (Some ''{}'') =
     Some (\<lparr> success = True, output = Some ''{}'', error = None \<rparr>,
           [\<lparr> call_index = 0, call_args = ''{}'', call_user_data = 0 \<rparr>])"
    and e: "\<exists>res c. neuronos_tool_execute
       (snd (neuronos_tool_register_defaults 1 2 example_builtins
               (neuronos_tool_registry_create True) 2))
       (Some ''read_file'') None = Some (res, [c])"
    using a b u by (simp_all add: echo_tool_def)
  from capability_gating_at_registration
    [of example_registry "''shell''" 0 echo_tool "Some ''{}''" 1 2 example_builtins 2 "''shell''" None]
  have f: "\<nexists>res c. neuronos_tool_execute
       (snd (neuronos_tool_register_defaults 1 2 example_builtins
               (neuronos_tool_registry_create True) 2))
       (Some ''shell'') None = Some (res, [c])"
    by simp
  from a b c d e f show ?thesis by blast
qed

text \<open>
  The claim as stated fails for a tool registered directly: with a granted mask of 0, a
  registered tool that requires capability 1 is executed all the same.
\<close>

theorem execute_ignores_required_caps_counterexample:
  "neuronos_tool_execute (Some example_registry) (Some ''shell'') None =
     Some (\<lparr> success = True, output = Some ''{}'', error = None \<rparr>,
           [\<lparr> call_index = 0, call_args = ''{}'', call_user_data = 0 \<rparr>]) \<and>
   required_caps (tools example_registry ! 0) = 1 \<and>
   (0 :: u32) AND required_caps (tools example_registry ! 0) \<noteq> required_caps (tools example_registry ! 0)"
  by (simp add: execute_found [OF example_registry_find] example_registry_tool example_desc_def
      echo_tool_def)

section \<open>Tool registry: invariant\<close>

text \<open>
  Claim C10, as the code has it. Registry invariant: starting from a freshly created
  registry, after every sequence of register calls, whatever the caller writes to its name
  buffers between the calls, the count is between 0 and 64 and the lookup of a name by
  index returns null exactly when the index is outside \<open>[0, count)\<close>; and when the
  caller has written to no name after registering it, the names of the tools at the
  indices below the count are pairwise distinct.
\<close>

theorem registry_invariant:
  "\<exists>r. run_steps (neuronos_tool_registry_create True) steps = Some r \<and>
       0 \<le> neuronos_tool_count (Some r) \<and> neuronos_tool_count (Some r) \<le> 64 \<and>
       (\<forall>index. neuronos_tool_name (Some r) index = None \<longleftrightarrow>
                  (index < 0 \<or> neuronos_tool_count (Some r) \<le> index)) \<and>
       (names_untouched (neuronos_tool_registry_create True) steps \<longrightarrow>
          distinct (map (\<lambda>i. neuronos_tool_name (Some r) (int i))
                      [0..<nat (neuronos_tool_count (Some r))]))"
proof -
  let ?r0 = "\<lparr> tools = replicate 64 zero_desc, count = 0 \<rparr>"
  from registry_ok_run_steps [OF registry_wf_ok [OF registry_wf_create], of steps]
  obtain r where r: "run_steps (Some ?r0) steps = Some r" "registry_ok r"
    by blast
  have bounds: "0 \<le> count r" "count r \<le> 64" using r(2) by (simp_all add: registry_ok_def)
  have dist: "distinct (map (\<lambda>i. neuronos_tool_name (Some r) (int i)) [0..<nat (count r)])"
    if "names_untouched (Some ?r0) steps"
    using registry_wf_run_steps [OF registry_wf_create that r(1)] by (rule tool_names_distinct)
  from r(1) bounds tool_name_None_iff [OF r(2)] dist
  show ?thesis by (auto simp: neuronos_tool_count_def create_True)
qed

text \<open>
  Four register calls and no write: \<open>shell\<close>, \<open>shell\<close> again (refused), a null
  descriptor (refused) and \<open>calculate\<close> leave two tools with distinct names.
\<close>

theorem registry_invariant_witness:
  "names_untouched (neuronos_tool_registry_create True)
      [Register (Some (example_desc ''shell'' 1)), Register (Some (example_desc ''shell'' 2)),
       Register None, Register (Some (example_desc ''calculate'' 0))] \<and>
   neuronos_tool_count (run_steps (neuronos_tool_registry_create True)
      [Register (Some (example_desc ''shell'' 1)), Register (Some (example_desc ''shell'' 2)),
       Register None, Register (Some (example_desc ''calculate'' 0))]) = 2 \<and>
   (\<exists>r. run_steps (neuronos_tool_registry_create True)
      [Register (Some (example_desc ''shell'' 1)), Register (Some (example_desc ''shell'' 2)),
       Register None, Register (Some (example_desc ''calculate'' 0))] = Some r \<and>
     neuronos_tool_name (Some r) 0 = Some ''shell'' \<and>
     neuronos_tool_name (Some r) 1 = Some ''calculate'' \<and>
     neuronos_tool_name (Some r) 2 = None \<and>
     neuronos_tool_name (Some r) (- 1) = None \<and>
     distinct (map (\<lambda>i. neuronos_tool_name (Some r) (int i))
                   [0..<nat (neuronos_tool_count (Some r))]))"
proof -
  let ?ds = "[Register (Some (example_desc ''shell'' 1)), Register (Some (example_desc ''shell'' 2)),
       Register None, Register (Some (example_desc ''calculate'' 0))]"
  let ?reg = "run_steps (neuronos_tool_registry_create True) ?ds"
  have h: "names_untouched (neuronos_tool_registry_create True) ?ds" by simp
  have a: "neuronos_tool_count ?reg = 2" by code_simp
  have b: "neuronos_tool_name ?reg 0 = Some ''shell''" by code_simp
  have c: "neuronos_tool_name ?reg 1 = Some ''calculate''" by code_simp
  from registry_invariant [of ?ds] h obtain r where r: "?reg = Some r"
    "distinct (map (\<lambda>i. neuronos_tool_name (Some r) (int i))
                   [0..<nat (neuronos_tool_count (Some r))])"
    "\<forall>index. neuronos_tool_name (Some r) index = None \<longleftrightarrow>
                  (index < 0 \<or> neuronos_tool_count (Some r) \<le> index)"
    by blast
  from r(3) a r(1) have "neuronos_tool_name (Some r) 2 = None" "neuronos_tool_name (Some r) (- 1) = None"
    by simp_all
  with a b c r h show ?thesis by simp
qed

text \<open>
  The claim as stated fails when the caller reuses a name buffer. Register \<open>a\<close> from a
  buffer, register \<open>b\<close> from a second buffer, write \<open>a\<close> into the second buffer, and
  register \<open>c\<close>: every call succeeds, and after the last one the registry holds three
  tools of which the first two are both named \<open>a\<close>.
\<close>

theorem registry_invariant_counterexample:
  "neuronos_tool_count (run_steps (neuronos_tool_registry_create True)
      [Register (Some (example_desc ''a'' 0)), Register (Some (example_desc ''b'' 0)),
       Overwrite_name 1 ''a'', Register (Some (example_desc ''c'' 0))]) = 3 \<and>
   neuronos_tool_name (run_steps (neuronos_tool_registry_create True)
      [Register (Some (example_desc ''a'' 0)), Register (Some (example_desc ''b'' 0)),
       Overwrite_name 1 ''a'', Register (Some (example_desc ''c'' 0))]) 0 = Some ''a'' \<and>
   neuronos_tool_name (run_steps (neuronos_tool_registry_create True)
      [Register (Some (example_desc ''a'' 0)), Register (Some (example_desc ''b'' 0)),
       Overwrite_name 1 ''a'', Register (Some (example_desc ''c'' 0))]) 1 = Some ''a'' \<and>
   \<not> distinct (map (\<lambda>i. neuronos_tool_name (run_steps (neuronos_tool_registry_create True)
      [Register (Some (example_desc ''a'' 0)), Register (Some (example_desc ''b'' 0)),
       Overwrite_name 1 ''a'', Register (Some (example_desc ''c'' 0))]) (int i)) [0..<3])"
  by code_simp

section \<open>Tool registry: grammar fragment\<close>

text \<open>
  When the whole rule and its terminator fit in the buffer of \<open>256 + 40 * count\<close>
  bytes, every \<open>snprintf\<close> writes its text in full and the function returns the rule
  with the registered names in registration order.
\<close>

lemma snprintf_at_fits:
  assumes "buf_len b = length (buf_text b)" and "length (buf_text b) + length s < cap"
  shows "snprintf_at cap b s =
     Some \<lparr> buf_text = buf_text b @ s, buf_len = length (buf_text b @ s) \<rparr>"
  using assms by (simp add: snprintf_at_def)

lemma grammar_emit_fits:
  assumes "name t = Some nm" and "buf_len b = length (buf_text b)"
    and "length (buf_text b) + length ((if i > 0 then '' | '' else []) @ quoted_name nm) < cap"
  shows "grammar_emit cap i t b =
     Some \<lparr> buf_text = buf_text b @ (if i > 0 then '' | '' else []) @ quoted_name nm,
            buf_len = length (buf_text b @ (if i > 0 then '' | '' else []) @ quoted_name nm) \<rparr>"
proof -
  define b1 where "b1 = \<lparr> buf_text = buf_text b @ (if i > 0 then '' | '' else []),
                           buf_len = length (buf_text b @ (if i > 0 then '' | '' else [])) \<rparr>"
  define b2 where "b2 = \<lparr> buf_text = buf_text b1 @ [dq, bsl, dq],
                           buf_len = length (buf_text b1 @ [dq, bsl, dq]) \<rparr>"
  define b3 where "b3 = \<lparr> buf_text = buf_text b2 @ nm, buf_len = length (buf_text b2 @ nm) \<rparr>"
  have len: "length (buf_text b) + (if i > 0 then 3 else 0) + length nm + 6 < cap"
    using assms(3) by (simp add: quoted_name_def split: if_splits)
  have s1: "(if i > 0 then snprintf_at cap b '' | '' else Some b) = Some b1"
  proof (cases "i > 0")
    case True
    have "snprintf_at cap b '' | '' = Some \<lparr> buf_text = buf_text b @ '' | '',
        buf_len = length (buf_text b @ '' | '') \<rparr>"
      using assms(2) len True by (intro snprintf_at_fits) simp_all
    with True show ?thesis by (simp add: b1_def)
  next
    case False
    then show ?thesis using assms(2) by (simp add: b1_def)
  qed
  have s2: "snprintf_at cap b1 [dq, bsl, dq] = Some b2"
    unfolding b2_def using len by (intro snprintf_at_fits) (simp_all add: b1_def)
  have s3: "snprintf_at cap b2 nm = Some b3"
    unfolding b3_def using len by (intro snprintf_at_fits) (simp_all add: b1_def b2_def)
  have s4: "snprintf_at cap b3 [bsl, dq, dq] =
      Some \<lparr> buf_text = buf_text b3 @ [bsl, dq, dq], buf_len = length (buf_text b3 @ [bsl, dq, dq]) \<rparr>"
    using len by (intro snprintf_at_fits) (auto simp: b1_def b2_def b3_def split: if_splits)
  show ?thesis
    unfolding grammar_emit_def using assms(1)
    by (simp add: s1 s2 s3 s4) (simp add: b1_def b2_def b3_def quoted_name_def)
qed

lemma grammar_loop_fits:
  assumes "0 \<le> i"
    and "\<forall>k. i \<le> k \<and> k < count r \<longrightarrow> name (tools r ! nat k) \<noteq> None"
    and "buf_len b = length (buf_text b)"
    and "length (buf_text b) +
           length (concat (map (\<lambda>k. (if 0 < k then '' | '' else []) @
                                  quoted_name (the (name (tools r ! k))))
                           [nat i..<nat (count r)])) < cap"
  shows "\<exists>b'. grammar_loop cap r i b = Some b' \<and>
     buf_text b' = buf_text b @
        concat (map (\<lambda>k. (if 0 < k then '' | '' else []) @ quoted_name (the (name (tools r ! k))))
                  [nat i..<nat (count r)])"
  using assms
proof (induction cap r i b rule: grammar_loop.induct)
  case (1 cap reg i b)
  let ?piece = "\<lambda>k. (if 0 < k then '' | '' else []) @ quoted_name (the (name (tools reg ! k)))"
  show ?case
  proof (cases "i < count reg")
    case False
    then have "[nat i..<nat (count reg)] = []" by simp
    with False show ?thesis by (simp add: grammar_loop.simps [of cap reg i b])
  next
    case True
    then have upt: "[nat i..<nat (count reg)] = nat i # [nat (i + 1)..<nat (count reg)]"
      using "1.prems"(1) by (simp add: upt_conv_Cons nat_add_distrib)
    from "1.prems"(2) True obtain nm where nm: "name (tools reg ! nat i) = Some nm" by auto
    have pc: "?piece (nat i) = (if i > 0 then '' | '' else []) @ quoted_name nm"
      using nm "1.prems"(1) by simp
    define b1 where "b1 = \<lparr> buf_text = buf_text b @ ?piece (nat i),
                             buf_len = length (buf_text b @ ?piece (nat i)) \<rparr>"
    have fit: "length (buf_text b) + length ((if i > 0 then '' | '' else []) @ quoted_name nm) < cap"
      using "1.prems"(4) unfolding upt pc [symmetric] by simp
    have emit: "grammar_emit cap i (tools reg ! nat i) b = Some b1"
      using grammar_emit_fits [OF nm "1.prems"(3) fit] by (simp only: b1_def pc)
    have "\<exists>b'. grammar_loop cap reg (i + 1) b1 = Some b' \<and>
        buf_text b' = buf_text b1 @ concat (map ?piece [nat (i + 1)..<nat (count reg)])"
    proof (rule "1.IH" [OF True emit])
      show "0 \<le> i + 1" using "1.prems"(1) by simp
      show "\<forall>k. i + 1 \<le> k \<and> k < count reg \<longrightarrow> name (tools reg ! nat k) \<noteq> None"
        using "1.prems"(2) by simp
      show "buf_len b1 = length (buf_text b1)" by (simp add: b1_def)
      show "length (buf_text b1) + length (concat (map ?piece [nat (i + 1)..<nat (count reg)])) < cap"
        using "1.prems"(4) unfolding upt by (simp add: b1_def)
    qed
    then show ?thesis
      using True emit by (simp add: grammar_loop.simps [of cap reg i b] upt b1_def)
  qed
qed

lemma join_alternatives_Cons:
  "join_alternatives (a # rest) = a @ concat (map (\<lambda>y. '' | '' @ y) rest)"
  by (induction rest arbitrary: a) simp_all

lemma pieces_join:
  "concat (map (\<lambda>k. (if 0 < k then '' | '' else []) @ q k) [0..<n]) =
     join_alternatives (map q [0..<n])"
proof (cases n)
  case 0
  then show ?thesis by simp
next
  case (Suc m)
  have split: "[0..<Suc m] = 0 # [Suc 0..<Suc m]" by (simp add: upt_conv_Cons)
  have tl: "map (\<lambda>k. (if 0 < k then '' | '' else []) @ q k) [Suc 0..<Suc m]
      = map (\<lambda>y. '' | '' @ y) (map q [Suc 0..<Suc m])"
    by simp
  have "concat (map (\<lambda>k. (if 0 < k then '' | '' else []) @ q k) [0..<Suc m])
      = q 0 @ concat (map (\<lambda>k. (if 0 < k then '' | '' else []) @ q k) [Suc 0..<Suc m])"
    by (simp only: split list.map concat.simps) simp
  also have "\<dots> = q 0 @ concat (map (\<lambda>y. '' | '' @ y) (map q [Suc 0..<Suc m]))"
    by (simp only: tl)
  also have "\<dots> = join_alternatives (q 0 # map q [Suc 0..<Suc m])"
    by (simp only: join_alternatives_Cons)
  also have "q 0 # map q [Suc 0..<Suc m] = map q [0..<Suc m]"
    by (simp only: split list.map)
  finally show ?thesis by (simp only: Suc)
qed

lemma grammar_names_fits:
  assumes "registry_ok r" and "0 < count r"
    and "length (grammar_rule (tool_name_list r)) < 256 + nat (count r) * 40"
  shows "neuronos_tool_grammar_names True (Some r) = Grammar (grammar_rule (tool_name_list r))"
proof -
  define cap where "cap = 256 + nat (count r) * 40"
  let ?piece = "\<lambda>k. (if 0 < k then '' | '' else []) @ quoted_name (the (name (tools r ! k)))"
  define b0 where "b0 = \<lparr> buf_text = ''tool-name ::= '', buf_len = length ''tool-name ::= '' \<rparr>"
  have rule: "grammar_rule (tool_name_list r) =
      ''tool-name ::= '' @ concat (map ?piece [0..<nat (count r)])"
    unfolding grammar_rule_def tool_name_list_def
    using pieces_join [of "\<lambda>k. quoted_name (the (name (tools r ! k)))" "nat (count r)"]
    by (simp add: comp_def)
  have fit: "length ''tool-name ::= '' + length (concat (map ?piece [0..<nat (count r)])) < cap"
    using assms(3) unfolding rule cap_def by simp
  have first: "snprintf_at cap \<lparr> buf_text = [], buf_len = 0 \<rparr> ''tool-name ::= '' = Some b0"
    unfolding b0_def using fit by (subst snprintf_at_fits) simp_all
  have names: "\<forall>k. 0 \<le> k \<and> k < count r \<longrightarrow> name (tools r ! nat k) \<noteq> None"
  proof (intro allI impI)
    fix k assume "0 \<le> k \<and> k < count r"
    then have "nat k < nat (count r)" by linarith
    then show "name (tools r ! nat k) \<noteq> None"
      using assms(1) by (simp add: registry_ok_def list_all_iff)
  qed
  have "\<exists>b'. grammar_loop cap r 0 b0 = Some b' \<and>
     buf_text b' = buf_text b0 @ concat (map ?piece [nat 0..<nat (count r)])"
    using names by (rule grammar_loop_fits [OF order_refl]) (simp_all add: b0_def fit [simplified])
  then obtain b' where b': "grammar_loop cap r 0 b0 = Some b'"
      "buf_text b' = ''tool-name ::= '' @ concat (map ?piece [0..<nat (count r)])"
    by (auto simp: b0_def)
  show ?thesis
    using assms(2) first b'
    by (simp add: neuronos_tool_grammar_names_def Let_def cap_def [symmetric] rule)
qed

lemma grammar_names_empty:
  "neuronos_tool_grammar_names malloc_ok None = Grammar noop_grammar"
  "count r = 0 \<Longrightarrow> neuronos_tool_grammar_names malloc_ok (Some r) = Grammar noop_grammar"
  by (simp_all add: neuronos_tool_grammar_names_def)

lemma grammar_names_shell_read_file: "neuronos_tool_grammar_names True
     (run_steps (neuronos_tool_registry_create True)
        [Register (Some (example_desc ''shell'' 1)), Register (Some (example_desc ''read_file'' 2))])
   = Grammar (grammar_rule [''shell'', ''read_file''])"
  by code_simp

text \<open>
  Claim C8. For a null registry or a registry holding no tool, the grammar generator
  returns exactly the rule naming the single placeholder tool \<open>noop\<close>; for a non-empty
  registry it emits the registered names in registration order. The first half is
  \<open>grammar_names_empty\<close>, and the second holds whenever the rule fits the buffer
  (\<open>grammar_names_fits\<close>). It does not hold for every registry: with one tool whose
  name has 300 characters the buffer has 296 bytes, the name is cut, \<open>len\<close> passes
  \<open>cap\<close> and the next \<open>snprintf\<close> writes outside the buffer.
\<close>

theorem grammar_names_long_name_overflow:
  "neuronos_tool_grammar_names True
     (snd (neuronos_tool_register (neuronos_tool_registry_create True)
        (Some (example_desc (replicate 300 CHR ''a'') 0))))
   = Undefined_behaviour"
  by code_simp

end
